theory Spec2Isabelle
  imports Complex_Main "HOL-Library.Multiset"
begin

section \<open>Numeric conventions\<close>

text \<open>
  The kernels of \<^verbatim>\<open>tsne/_tsne.pyx\<close> compute with C doubles.  The embedding reads every
  double as a real number (exact arithmetic); the two infinite values that the code
  stores into its running bounds are kept apart from the reals by the type \<open>bound\<close>.
  \<^verbatim>\<open>EPSILON = np.finfo(np.float64).eps\<close> is the machine epsilon of a double.
\<close>

definition EPSILON :: real where
  "EPSILON = 1 / 2 ^ 52"

datatype bound = NegInf | Fin real | PosInf

text \<open>\<^verbatim>\<open>x < b\<close> and \<open>x > b\<close> for a finite \<open>x\<close> and a possibly infinite \<open>b\<close>.\<close>

fun lt_bound :: "real \<Rightarrow> bound \<Rightarrow> bool" where
  "lt_bound x NegInf = False"
| "lt_bound x (Fin b) = (x < b)"
| "lt_bound x PosInf = True"

fun gt_bound :: "real \<Rightarrow> bound \<Rightarrow> bool" where
  "gt_bound x NegInf = True"
| "gt_bound x (Fin b) = (x > b)"
| "gt_bound x PosInf = False"

text \<open>\<^verbatim>\<open>isinf(b)\<close> holds for both infinities.\<close>

fun isinf :: "bound \<Rightarrow> bool" where
  "isinf (Fin b) = False"
| "isinf b = True"

section \<open>Bounding box of the embedding (FFT engines)\<close>

text \<open>
  \<^verbatim>\<open>
    cdef double y_max = -INFINITY, y_min = INFINITY
    for i in range(N):
        if embedding[i] < y_min:
            y_min = embedding[i]
        elif embedding[i] > y_max:
            y_max = embedding[i]
  \<close>
  The state of the loop is the pair \<open>(y_min, y_max)\<close>.  The second test is an
  \<^verbatim>\<open>elif\<close>: it is only reached when the first one fails.
\<close>

definition minmax_update :: "real \<Rightarrow> bound \<times> bound \<Rightarrow> bound \<times> bound" where
  "minmax_update x = (\<lambda>(lo, hi).
     if lt_bound x lo then (Fin x, hi)
     else if gt_bound x hi then (lo, Fin x)
     else (lo, hi))"

definition bounds_1d :: "real list \<Rightarrow> bound \<times> bound" where
  "bounds_1d embedding =
     fold (\<lambda>i. minmax_update (embedding ! i)) [0..<length embedding] (PosInf, NegInf)"

text \<open>
  The 2-D engine runs the same pair of tests on \<^verbatim>\<open>embedding[i, 0]\<close> and then on
  \<^verbatim>\<open>embedding[i, 1]\<close>, with one shared pair \<open>(coord_min, coord_max)\<close>.
\<close>

definition bounds_2d :: "real list list \<Rightarrow> bound \<times> bound" where
  "bounds_2d embedding =
     fold (\<lambda>i s. minmax_update (embedding ! i ! 1) (minmax_update (embedding ! i ! 0) s))
       [0..<length embedding] (PosInf, NegInf)"

section \<open>Pointwise product of the 2-D FFT engine\<close>

text \<open>
  \<^verbatim>\<open>
    for i in range(n_fft_coeffs * (n_fft_coeffs / 2 + 1)):
        fft_w_coeffs[i].real = fft_w_coeffs[i].real * fft_kernel_tilde[i].real - \
            fft_w_coeffs[i].imag * fft_kernel_tilde[i].imag
        fft_w_coeffs[i].imag = fft_w_coeffs[i].real * fft_kernel_tilde[i].imag + \
            fft_kernel_tilde[i].real * fft_w_coeffs[i].imag
  \<close>
  Two assignments in sequence on the array: the second one reads the array that the
  first one has already written.
\<close>

record fftw_complex =
  real_part :: real
  imag_part :: real

definition hadamard_body :: "fftw_complex list \<Rightarrow> nat \<Rightarrow> fftw_complex list \<Rightarrow> fftw_complex list" where
  "hadamard_body fft_kernel_tilde i fft_w_coeffs =
     (let w1 = fft_w_coeffs[i := (fft_w_coeffs ! i)\<lparr>real_part :=
                 real_part (fft_w_coeffs ! i) * real_part (fft_kernel_tilde ! i)
                 - imag_part (fft_w_coeffs ! i) * imag_part (fft_kernel_tilde ! i)\<rparr>];
          w2 = w1[i := (w1 ! i)\<lparr>imag_part :=
                 real_part (w1 ! i) * imag_part (fft_kernel_tilde ! i)
                 + real_part (fft_kernel_tilde ! i) * imag_part (w1 ! i)\<rparr>]
      in w2)"

definition hadamard_product_2d :: "nat \<Rightarrow> fftw_complex list \<Rightarrow> fftw_complex list \<Rightarrow> fftw_complex list" where
  "hadamard_product_2d n_fft_coeffs fft_kernel_tilde fft_w_coeffs =
     fold (hadamard_body fft_kernel_tilde) [0..<n_fft_coeffs * (n_fft_coeffs div 2 + 1)] fft_w_coeffs"

section \<open>Arrays and parallel loops\<close>

text \<open>
  A two-dimensional memoryview is a list of rows; \<^verbatim>\<open>a.shape[0]\<close> is its length and
  \<^verbatim>\<open>a.shape[1]\<close> the length of its rows.  The module is compiled with
  \<^verbatim>\<open>boundscheck=False\<close> and \<^verbatim>\<open>wraparound=False\<close>: an index outside an array is not
  checked by the code, and the theorems below state the shapes they rely on.
\<close>

definition shape1 :: "'a list list \<Rightarrow> nat" where
  "shape1 a = (case a of [] \<Rightarrow> 0 | r # _ \<Rightarrow> length r)"

text \<open>
  \<^verbatim>\<open>for i in prange(n, num_threads=t, schedule='guided')\<close> hands every index below \<open>n\<close>
  to one of \<open>t\<close> threads; which thread gets which index, and in which order, is
  decided by the OpenMP runtime.  A run is described by its \<open>chunks\<close>: for each thread
  the indices it executed, in order.  The runtime is a parameter \<open>sched\<close> of every
  parallel entry point, giving the chunks for a thread count and a trip count.  The
  chunks are run one after the other: no iteration writes what another one reads or
  writes, except for the reduction variables, which every thread accumulates on its own.
\<close>

definition valid_chunks :: "nat \<Rightarrow> nat \<Rightarrow> nat list list \<Rightarrow> bool" where
  "valid_chunks t n chunks \<longleftrightarrow> length chunks = t \<and> mset (concat chunks) = mset [0..<n]"

definition prange :: "nat list list \<Rightarrow> (nat \<Rightarrow> 's \<Rightarrow> 's) \<Rightarrow> 's \<Rightarrow> 's" where
  "prange chunks body = fold (\<lambda>rows. fold body rows) chunks"

text \<open>
  An iteration \<open>i\<close> that works on slot \<open>i\<close> of two arrays (through \<^verbatim>\<open>&a[i]\<close>, \<^verbatim>\<open>&b[i]\<close> or
  through \<^verbatim>\<open>a[i, j]\<close>, \<^verbatim>\<open>b[i]\<close>) and on nothing else that is written.
\<close>

definition on_slot :: "('a \<times> 'b \<Rightarrow> 'a \<times> 'b) \<Rightarrow> nat \<Rightarrow> 'a list \<times> 'b list \<Rightarrow> 'a list \<times> 'b list" where
  "on_slot f i = (\<lambda>(A, B). let (a, b) = f (A ! i, B ! i) in (A[i := a], B[i := b]))"

text \<open>The guard at the head of every parallel entry point.\<close>

definition clamp_threads :: "int \<Rightarrow> int" where
  "clamp_threads num_threads = (if num_threads < 1 then 1 else num_threads)"

text \<open>A runtime that lets the first thread do all the work, to have one at hand.\<close>

definition serial :: "nat \<Rightarrow> nat \<Rightarrow> nat list list" where
  "serial t n = [0..<n] # replicate (t - 1) []"

section \<open>Perplexity calibration: \<^verbatim>\<open>compute_gaussian_perplexity\<close>\<close>

text \<open>
  The variables that one row of the outer loop works on: row \<open>i\<close> of \<open>P\<close>, \<open>beta[i]\<close>
  and the thread-private doubles.
\<close>

record row_state =
  P_i :: "real list"
  beta_i :: real
  min_beta :: bound
  max_beta :: bound
  sum_Pi :: real
  entropy :: real
  entropy_diff :: real

text \<open>
  \<^verbatim>\<open>
    P[i, j] = exp(-distances[i, j] * beta[i])
    entropy = entropy + distances[i, j] * P[i, j]
    sum_Pi = sum_Pi + P[i, j]
  \<close>
\<close>

definition accumulate_row :: "real list \<Rightarrow> nat \<Rightarrow> row_state \<Rightarrow> row_state" where
  "accumulate_row distances_i j s =
     (let s1 = s\<lparr>P_i := (P_i s)[j := exp (- (distances_i ! j) * beta_i s)]\<rparr>;
          s2 = s1\<lparr>entropy := entropy s1 + distances_i ! j * P_i s1 ! j\<rparr>;
          s3 = s2\<lparr>sum_Pi := sum_Pi s2 + P_i s2 ! j\<rparr>
      in s3)"

text \<open>The first half of an iteration, up to the convergence test.\<close>

definition evaluate_beta :: "real list \<Rightarrow> nat \<Rightarrow> real \<Rightarrow> row_state \<Rightarrow> row_state" where
  "evaluate_beta distances_i n_existing_points desired_entropy s =
     (let s0 = s\<lparr>sum_Pi := 0, entropy := 0\<rparr>;
          s1 = fold (accumulate_row distances_i) [0..<n_existing_points] s0;
          s2 = s1\<lparr>sum_Pi := sum_Pi s1 + EPSILON\<rparr>;
          s3 = s2\<lparr>entropy := ln (sum_Pi s2) + beta_i s2 * entropy s2 / sum_Pi s2\<rparr>;
          s4 = s3\<lparr>entropy_diff := entropy s3 - desired_entropy\<rparr>
      in s4)"

text \<open>
  The second half: the bracket moves and \<open>beta[i]\<close> is replaced.
  \<^verbatim>\<open>
    if entropy_diff > 0:
        min_beta = beta[i]
        if isinf(max_beta): beta[i] *= 2
        else: beta[i] = (beta[i] + max_beta) / 2
    else:
        max_beta = beta[i]
        if isinf(min_beta): beta[i] /= 2
        else: beta[i] = (beta[i] + min_beta) / 2
  \<close>
\<close>

definition update_beta :: "row_state \<Rightarrow> row_state" where
  "update_beta s =
     (if entropy_diff s > 0 then
        (let s1 = s\<lparr>min_beta := Fin (beta_i s)\<rparr> in
         case max_beta s1 of
           Fin m \<Rightarrow> s1\<lparr>beta_i := (beta_i s1 + m) / 2\<rparr>
         | _ \<Rightarrow> s1\<lparr>beta_i := beta_i s1 * 2\<rparr>)
      else
        (let s1 = s\<lparr>max_beta := Fin (beta_i s)\<rparr> in
         case min_beta s1 of
           Fin m \<Rightarrow> s1\<lparr>beta_i := (beta_i s1 + m) / 2\<rparr>
         | _ \<Rightarrow> s1\<lparr>beta_i := beta_i s1 / 2\<rparr>))"

text \<open>
  \<^verbatim>\<open>for iteration in range(max_iter)\<close> with its \<^verbatim>\<open>break\<close>.  The function returns the
  state after the loop together with the number of loop bodies that were executed
  (when started with \<open>iteration = 0\<close>).
\<close>

function binary_search ::
  "real list \<Rightarrow> nat \<Rightarrow> real \<Rightarrow> real \<Rightarrow> int \<Rightarrow> int \<Rightarrow> row_state \<Rightarrow> row_state \<times> int" where
  "binary_search distances_i n_existing_points desired_entropy perplexity_tol max_iter iteration s =
     (if iteration < max_iter then
        (let s1 = evaluate_beta distances_i n_existing_points desired_entropy s in
         if \<bar>entropy_diff s1\<bar> \<le> perplexity_tol then (s1, iteration + 1)
         else binary_search distances_i n_existing_points desired_entropy perplexity_tol
                max_iter (iteration + 1) (update_beta s1))
      else (s, iteration))"
  by pat_completeness auto
termination
  by (relation "measure (\<lambda>(d, n, h, tol, max_iter, iteration, s). nat (max_iter - iteration))") auto

declare binary_search.simps [simp del]

text \<open>
  The body of the outer loop for one row: reset the bracket, search, then
  \<^verbatim>\<open>P[i, j] /= sum_Pi\<close> for every \<open>j\<close>.
\<close>

definition calibrate_row :: "real list \<Rightarrow> nat \<Rightarrow> real \<Rightarrow> real \<Rightarrow> int \<Rightarrow> row_state \<Rightarrow> row_state" where
  "calibrate_row distances_i n_existing_points desired_entropy perplexity_tol max_iter s =
     (let s1 = s\<lparr>min_beta := NegInf, max_beta := PosInf\<rparr>;
          s2 = fst (binary_search distances_i n_existing_points desired_entropy
                      perplexity_tol max_iter 0 s1);
          s3 = fold (\<lambda>j s. s\<lparr>P_i := (P_i s)[j := P_i s ! j / sum_Pi s]\<rparr>)
                 [0..<n_existing_points] s2
      in s3)"

text \<open>
  The state shared by the rows is the pair of arrays \<open>(P, beta)\<close>.  A thread-private
  double holds no defined value before its first assignment in an iteration of the
  \<^verbatim>\<open>prange\<close>; \<open>unset\<close> stands for that content.
\<close>

definition perplexity_body ::
  "real \<Rightarrow> real list list \<Rightarrow> nat \<Rightarrow> real \<Rightarrow> real \<Rightarrow> int \<Rightarrow> nat
    \<Rightarrow> real list list \<times> real list \<Rightarrow> real list list \<times> real list" where
  "perplexity_body unset distances n_existing_points desired_entropy perplexity_tol max_iter i =
     on_slot (\<lambda>(P_row, b).
        let s = calibrate_row (distances ! i) n_existing_points desired_entropy perplexity_tol max_iter
                  \<lparr>P_i = P_row, beta_i = b, min_beta = NegInf, max_beta = PosInf,
                   sum_Pi = unset, entropy = unset, entropy_diff = unset\<rparr>
        in (P_i s, beta_i s)) i"

definition compute_gaussian_perplexity ::
  "(nat \<Rightarrow> nat \<Rightarrow> nat list list) \<Rightarrow> real \<Rightarrow> real list list \<Rightarrow> real \<Rightarrow> real \<Rightarrow> int \<Rightarrow> int
    \<Rightarrow> real list list" where
  "compute_gaussian_perplexity sched unset distances desired_perplexity perplexity_tol max_iter num_threads =
     (let n_new_points = length distances;
          n_existing_points = shape1 distances;
          P = map (map (\<lambda>_. 0)) distances;
          beta = replicate n_new_points 1;
          desired_entropy = ln desired_perplexity;
          num_threads = clamp_threads num_threads;
          (P, beta) = prange (sched (nat num_threads) n_new_points)
                        (perplexity_body unset distances n_existing_points desired_entropy
                           perplexity_tol max_iter) (P, beta)
      in P)"

section \<open>Attractive forces: \<^verbatim>\<open>compute_positive_gradients\<close>\<close>

datatype error = MemoryError

text \<open>
  What one thread owns inside the parallel block: its scratch vector \<open>diff\<close> and its
  copies of the two reduction variables, which start at zero and are added to the
  shared totals when the block ends.
\<close>

record worker =
  diff :: "real list"
  sum_P :: real
  kl_divergence :: real

text \<open>
  \<^verbatim>\<open>
    d_ij = 0
    for d in range(n_dims):
        diff[d] = embedding[i, d] - reference_embedding[j, d]
        d_ij = d_ij + diff[d] ** 2
  \<close>
\<close>

definition difference_loop ::
  "real list \<Rightarrow> real list \<Rightarrow> nat \<Rightarrow> real list \<Rightarrow> real list \<times> real" where
  "difference_loop y_i y_j n_dims diff0 =
     fold (\<lambda>d (diff, d_ij).
             let diff = diff[d := y_i ! d - y_j ! d] in (diff, d_ij + (diff ! d)\<^sup>2))
       [0..<n_dims] (diff0, 0)"

text \<open>
  \<^verbatim>\<open>
    q_ij = dof / (dof + d_ij)
    if dof != 1:
        q_ij = q_ij ** (dof + 1) / 2
  \<close>
  In Cython, as in Python, \<^verbatim>\<open>**\<close> binds tighter than \<^verbatim>\<open>/\<close>: the second assignment is
  \<^verbatim>\<open>(q_ij ** (dof + 1)) / 2\<close>.  The power of two doubles is \<open>powr\<close>, which agrees with
  C's \<^verbatim>\<open>pow\<close> on a positive base.  Both gradient engines contain these three lines.
\<close>

definition student_t :: "real \<Rightarrow> real \<Rightarrow> real" where
  "student_t dof d_ij =
     (let q_ij = dof / (dof + d_ij);
          q_ij = (if dof \<noteq> 1 then q_ij powr (dof + 1) / 2 else q_ij)
      in q_ij)"

text \<open>The body of the loop over the stored entries \<open>k\<close> of row \<open>i\<close>.\<close>

definition neighbor_body ::
  "nat list \<Rightarrow> real list \<Rightarrow> real list list \<Rightarrow> real list list \<Rightarrow> real \<Rightarrow> nat \<Rightarrow> bool
    \<Rightarrow> nat \<Rightarrow> nat \<Rightarrow> real list list \<times> worker \<Rightarrow> real list list \<times> worker" where
  "neighbor_body indices P_data embedding reference_embedding dof n_dims should_eval_error i k =
     (\<lambda>(gradient, w).
        let j = indices ! k;
            p_ij = P_data ! k;
            (diff', d_ij) = difference_loop (embedding ! i) (reference_embedding ! j) n_dims (diff w);
            q_ij = student_t dof d_ij;
            gradient = fold (\<lambda>d g. g[i := (g ! i)[d := g ! i ! d + q_ij * p_ij * diff' ! d]])
                         [0..<n_dims] gradient;
            w = w\<lparr>diff := diff'\<rparr>
        in if should_eval_error
           then (gradient, w\<lparr>sum_P := sum_P w + p_ij,
                             kl_divergence := kl_divergence w + p_ij * ln (p_ij / (q_ij + EPSILON))\<rparr>)
           else (gradient, w))"

text \<open>One iteration of the \<^verbatim>\<open>prange\<close>: \<^verbatim>\<open>for k in range(indptr[i], indptr[i + 1])\<close>.\<close>

definition sample_body ::
  "nat list \<Rightarrow> nat list \<Rightarrow> real list \<Rightarrow> real list list \<Rightarrow> real list list \<Rightarrow> real \<Rightarrow> nat \<Rightarrow> bool
    \<Rightarrow> nat \<Rightarrow> real list list \<times> worker \<Rightarrow> real list list \<times> worker" where
  "sample_body indices indptr P_data embedding reference_embedding dof n_dims should_eval_error i =
     fold (neighbor_body indices P_data embedding reference_embedding dof n_dims should_eval_error i)
       [indptr ! i..<indptr ! (i + 1)]"

text \<open>
  One thread: it runs its chunk on the shared gradient with a fresh worker, and its two
  partial sums are then added to the totals.
\<close>

definition thread_body ::
  "nat list \<Rightarrow> nat list \<Rightarrow> real list \<Rightarrow> real list list \<Rightarrow> real list list \<Rightarrow> real \<Rightarrow> nat \<Rightarrow> bool
    \<Rightarrow> real list \<times> nat list \<Rightarrow> real list list \<times> real \<times> real \<Rightarrow> real list list \<times> real \<times> real" where
  "thread_body indices indptr P_data embedding reference_embedding dof n_dims should_eval_error =
     (\<lambda>(block, rows) (gradient, total_P, total_kl).
        let (gradient, w) =
              fold (sample_body indices indptr P_data embedding reference_embedding dof n_dims
                      should_eval_error) rows
                (gradient, \<lparr>diff = block, sum_P = 0, kl_divergence = 0\<rparr>)
        in (gradient, total_P + sum_P w, total_kl + kl_divergence w))"

text \<open>
  \<open>malloc tid n\<close> is what \<^verbatim>\<open>malloc(n_dims * sizeof(double))\<close> returns in thread \<open>tid\<close>:
  \<open>None\<close> for a null pointer, otherwise a block of doubles with arbitrary content.  A
  null pointer in any thread makes the call raise \<^verbatim>\<open>MemoryError\<close>.  The result of a call
  that returns is \<open>((sum_P, kl_divergence), gradient)\<close>: the returned tuple and the
  array that was updated in place.  The CSR arrays \<open>indices\<close> and \<open>indptr\<close> hold
  array positions and are lists of naturals.
\<close>

definition compute_positive_gradients ::
  "(nat \<Rightarrow> nat \<Rightarrow> nat list list) \<Rightarrow> (nat \<Rightarrow> nat \<Rightarrow> real list option)
    \<Rightarrow> nat list \<Rightarrow> nat list \<Rightarrow> real list \<Rightarrow> real list list \<Rightarrow> real list list \<Rightarrow> real list list
    \<Rightarrow> real \<Rightarrow> int \<Rightarrow> bool \<Rightarrow> error + ((real \<times> real) \<times> real list list)" where
  "compute_positive_gradients sched malloc indices indptr P_data embedding reference_embedding
     gradient dof num_threads should_eval_error =
     (let n_samples = length gradient;
          n_dims = shape1 gradient;
          num_threads = clamp_threads num_threads;
          blocks = map (\<lambda>tid. malloc tid n_dims) [0..<nat num_threads]
      in if None \<in> set blocks then Inl MemoryError
         else
           let (gradient, sum_P, kl_divergence) =
                 fold (thread_body indices indptr P_data embedding reference_embedding dof n_dims
                         should_eval_error)
                   (zip (map the blocks) (sched (nat num_threads) n_samples)) (gradient, 0, 0)
           in Inr ((sum_P, kl_divergence), gradient))"

section \<open>Repulsive forces by Barnes-Hut: \<^verbatim>\<open>compute_negative_gradients_bh\<close>\<close>

text \<open>
  Modelled from the spec: the \<^verbatim>\<open>Node\<close> struct is declared in the \<^verbatim>\<open>quad_tree\<close> module,
  which is not among the sources.  The fields are the ones that
  \<^verbatim>\<open>estimate_negative_gradient\<close> reads: a node is a region with a center of mass, a point
  count, a side length and its children (none for a leaf).  The helper
  \<^verbatim>\<open>is_duplicate(node, point)\<close> of the same module is a parameter of the functions below.
\<close>

datatype node = Node
  (n_dims: nat)
  (num_points: nat)
  (is_leaf: bool)
  (length_node: real)
  (center_of_mass: "real list")
  (children: "node list")

text \<open>
  \<^verbatim>\<open>
    cdef double distance = EPSILON
    for d in range(node.n_dims):
        distance += (node.center_of_mass[d] - point[d]) ** 2
  \<close>
\<close>

definition node_distance :: "node \<Rightarrow> real list \<Rightarrow> real" where
  "node_distance node point =
     fold (\<lambda>d distance. distance + (center_of_mass node ! d - point ! d)\<^sup>2)
       [0..<n_dims node] EPSILON"

text \<open>The test \<^verbatim>\<open>node.is_leaf or node.length / sqrt(distance) < theta\<close>.\<close>

definition use_summary :: "node \<Rightarrow> real list \<Rightarrow> real \<Rightarrow> bool" where
  "use_summary node point theta \<longleftrightarrow>
     is_leaf node \<or> length_node node / sqrt (node_distance node point) < theta"

text \<open>
  The branch taken when the node is used as a summary; the state is the pair of the
  gradient row of the query point and its partial sum \<open>sum_Q[0]\<close>.
\<close>

definition add_summary :: "node \<Rightarrow> real list \<Rightarrow> real \<Rightarrow> real list \<times> real \<Rightarrow> real list \<times> real" where
  "add_summary node point dof = (\<lambda>(gradient, sum_Q).
     let q_ij = student_t dof (node_distance node point);
         sum_Q = sum_Q + real (num_points node) * q_ij;
         gradient = fold (\<lambda>d g. g[d := g ! d - real (num_points node) * q_ij\<^sup>2
                                           * (point ! d - center_of_mass node ! d)])
                      [0..<n_dims node] gradient
     in (gradient, sum_Q))"

text \<open>
  The recursion visits \<^verbatim>\<open>node.children[d]\<close> for \<open>d\<close> below \<^verbatim>\<open>1 << node.n_dims\<close>.
\<close>

function estimate_negative_gradient ::
  "(node \<Rightarrow> real list \<Rightarrow> bool) \<Rightarrow> real list \<Rightarrow> real \<Rightarrow> real \<Rightarrow> node
    \<Rightarrow> real list \<times> real \<Rightarrow> real list \<times> real" where
  "estimate_negative_gradient is_duplicate point theta dof (Node nd np leaf len com cs) st =
     (if np = 0 \<or> leaf \<and> is_duplicate (Node nd np leaf len com cs) point then st
      else if use_summary (Node nd np leaf len com cs) point theta
           then add_summary (Node nd np leaf len com cs) point dof st
      else fold (estimate_negative_gradient is_duplicate point theta dof) (take (2 ^ nd) cs) st)"
  by pat_completeness auto
termination
proof (relation "measure (\<lambda>(is_duplicate, point, theta, dof, node, st). size node)")
  show "wf (measure (\<lambda>(is_duplicate, point, theta, dof, node, st). size node))"
    by simp
next
  fix is_duplicate :: "node \<Rightarrow> real list \<Rightarrow> bool"
  fix point com :: "real list" and theta dof len :: real and nd np :: nat and leaf :: bool
  fix cs :: "node list" and st xa :: "real list \<times> real" and x :: node
  assume "x \<in> set (take (2 ^ nd) cs)"
  then have "x \<in> set cs"
    by (rule in_set_takeD)
  then have "size x \<le> size_list size cs"
    by (rule size_list_estimation') simp
  then show "((is_duplicate, point, theta, dof, x, xa),
              (is_duplicate, point, theta, dof, Node nd np leaf len com cs, st))
             \<in> measure (\<lambda>(is_duplicate, point, theta, dof, node, st). size node)"
    by simp
qed

text \<open>
  One iteration of the parallel loop of \<^verbatim>\<open>compute_negative_gradients_bh\<close>: the call
  \<^verbatim>\<open>estimate_negative_gradient(&tree.root, &embedding[i, 0], &gradient[i, 0], &sum_Qi[i], theta, dof)\<close>
  works on row \<open>i\<close> of the gradient and on slot \<open>i\<close> of \<open>sum_Qi\<close>.
\<close>

definition bh_body ::
  "(node \<Rightarrow> real list \<Rightarrow> bool) \<Rightarrow> node \<Rightarrow> real list list \<Rightarrow> real \<Rightarrow> real \<Rightarrow> nat
    \<Rightarrow> real list list \<times> real list \<Rightarrow> real list list \<times> real list" where
  "bh_body is_duplicate tree_root embedding theta dof i =
     on_slot (estimate_negative_gradient is_duplicate (embedding ! i) theta dof tree_root) i"

text \<open>
  \<^verbatim>\<open>
    for i in range(gradient.shape[0]):
        for j in range(gradient.shape[1]):
            gradient[i, j] /= sum_Q + EPSILON
  \<close>
\<close>

definition normalize_gradient :: "real \<Rightarrow> real list list \<Rightarrow> real list list" where
  "normalize_gradient sum_Q gradient =
     fold (\<lambda>i g. fold (\<lambda>j g. g[i := (g ! i)[j := g ! i ! j / (sum_Q + EPSILON)]])
                    [0..<shape1 gradient] g)
       [0..<length gradient] gradient"

text \<open>
  The tree enters through its root node.  \<open>sum_Qi\<close> is allocated with \<open>num_points\<close>
  slots and filled with zeros before the parallel loop; after it the slots are added
  up one by one.  The result is \<open>(sum_Q, gradient)\<close>: the returned double and the array
  that was updated in place.
\<close>

definition compute_negative_gradients_bh ::
  "(nat \<Rightarrow> nat \<Rightarrow> nat list list) \<Rightarrow> (node \<Rightarrow> real list \<Rightarrow> bool) \<Rightarrow> node
    \<Rightarrow> real list list \<Rightarrow> real list list \<Rightarrow> real \<Rightarrow> real \<Rightarrow> int \<Rightarrow> real \<times> real list list" where
  "compute_negative_gradients_bh sched is_duplicate tree_root embedding gradient theta dof num_threads =
     (let num_points = length embedding;
          sum_Q = 0;
          sum_Qi = replicate num_points 0;
          num_threads = clamp_threads num_threads;
          (gradient, sum_Qi) = prange (sched (nat num_threads) num_points)
                                 (bh_body is_duplicate tree_root embedding theta dof) (gradient, sum_Qi);
          sum_Q = fold (\<lambda>i sum_Q. sum_Q + sum_Qi ! i) [0..<num_points] sum_Q;
          gradient = normalize_gradient sum_Q gradient
      in (sum_Q, gradient))"

section \<open>Notions used to state the properties\<close>

text \<open>
  The row of conditional probabilities for a precision \<open>b\<close>:
  \<open>exp (- d\<^sub>j * b)\<close> divided by the sum of these values plus \<open>EPSILON\<close>.
\<close>

definition gaussian_row :: "real \<Rightarrow> real list \<Rightarrow> real list" where
  "gaussian_row b ds = map (\<lambda>d. exp (- d * b) / ((\<Sum>d'\<leftarrow>ds. exp (- d' * b)) + EPSILON)) ds"

text \<open>
  The precision that the last executed iteration of a row evaluated, read off the
  variables of the row after the loop: \<open>beta[i]\<close> itself when that iteration met the
  tolerance; otherwise the end of the bracket that it set to the value it had
  evaluated (\<open>min_beta\<close> when the entropy was too large, \<open>max_beta\<close> when not).
\<close>

definition evaluated_beta :: "real \<Rightarrow> row_state \<Rightarrow> real" where
  "evaluated_beta perplexity_tol s =
     (if \<bar>entropy_diff s\<bar> \<le> perplexity_tol then beta_i s
      else case (if entropy_diff s > 0 then min_beta s else max_beta s) of
             Fin b \<Rightarrow> b
           | _ \<Rightarrow> beta_i s)"

text \<open>What holds of the row variables after the search loop has run at least once.\<close>

definition row_done :: "real list \<Rightarrow> real \<Rightarrow> row_state \<Rightarrow> bool" where
  "row_done ds perplexity_tol s \<longleftrightarrow>
     P_i s = map (\<lambda>d. exp (- d * evaluated_beta perplexity_tol s)) ds
     \<and> sum_Pi s = (\<Sum>d\<leftarrow>ds. exp (- d * evaluated_beta perplexity_tol s)) + EPSILON"

text \<open>The variables of row \<open>i\<close> when its iteration of the outer loop starts.\<close>

definition row_start :: "real \<Rightarrow> real list \<Rightarrow> row_state" where
  "row_start unset distances_i =
     \<lparr>P_i = map (\<lambda>_. 0) distances_i, beta_i = 1, min_beta = NegInf, max_beta = PosInf,
      sum_Pi = unset, entropy = unset, entropy_diff = unset\<rparr>"

text \<open>
  The squared Euclidean distance between a query point and the center of mass of a
  node, and the Barnes-Hut criterion for a side length \<open>s\<close> and a quantity \<open>r\<close>.
\<close>

definition squared_distance :: "node \<Rightarrow> real list \<Rightarrow> real" where
  "squared_distance node point = (\<Sum>d\<leftarrow>[0..<n_dims node]. (center_of_mass node ! d - point ! d)\<^sup>2)"

definition criterion :: "bool \<Rightarrow> real \<Rightarrow> real \<Rightarrow> real \<Rightarrow> bool" where
  "criterion leaf s r theta \<longleftrightarrow> leaf \<or> s / sqrt r < theta"

text \<open>
  Modelled from the spec: \<^verbatim>\<open>is_duplicate\<close> belongs to the \<^verbatim>\<open>quad_tree\<close> module, which is not
  among the sources; a self-interaction is a leaf that contains the query point exactly.
  This test stands for it where a concrete one is needed.
\<close>

definition same_place :: "node \<Rightarrow> real list \<Rightarrow> bool" where
  "same_place node point \<longleftrightarrow> center_of_mass node = point"

text \<open>
  The similarity in the words of the specification: \<open>dof / (dof + r)\<close> for a squared
  distance \<open>r\<close>, raised to the power \<open>(dof + 1) / 2\<close> when \<open>dof\<close> is not one.
\<close>

definition similarity :: "real \<Rightarrow> real \<Rightarrow> real" where
  "similarity dof r =
     (if dof \<noteq> 1 then (dof / (dof + r)) powr ((dof + 1) / 2) else dof / (dof + r))"

text \<open>
  Every thread of a run gets its scratch vector: the allocation succeeds and the block
  has room for \<open>nd\<close> doubles.
\<close>

definition allocates :: "(nat \<Rightarrow> nat \<Rightarrow> real list option) \<Rightarrow> nat \<Rightarrow> nat \<Rightarrow> bool" where
  "allocates malloc t nd \<longleftrightarrow> (\<forall>tid<t. \<exists>block. malloc tid nd = Some block \<and> length block = nd)"

text \<open>
  What one sample \<open>i\<close> contributes in the positive-gradient engine, as a function of the
  arguments of the call alone: the similarity of a stored entry \<open>k\<close>, row \<open>i\<close> of the
  gradient after entry \<open>k\<close> and after all entries of the row, and the two sums of the
  error evaluation.
\<close>

definition entry_q :: "nat list \<Rightarrow> real list list \<Rightarrow> real list list \<Rightarrow> real \<Rightarrow> nat \<Rightarrow> nat \<Rightarrow> nat \<Rightarrow> real" where
  "entry_q indices embedding reference_embedding dof nd i k =
     student_t dof (\<Sum>d\<leftarrow>[0..<nd]. (embedding ! i ! d - reference_embedding ! (indices ! k) ! d)\<^sup>2)"

definition attract_entry ::
  "nat list \<Rightarrow> real list \<Rightarrow> real list list \<Rightarrow> real list list \<Rightarrow> real \<Rightarrow> nat \<Rightarrow> nat \<Rightarrow> nat
    \<Rightarrow> real list \<Rightarrow> real list" where
  "attract_entry indices P_data embedding reference_embedding dof nd i k row =
     fold (\<lambda>d r. r[d := r ! d + entry_q indices embedding reference_embedding dof nd i k * P_data ! k
                              * (embedding ! i ! d - reference_embedding ! (indices ! k) ! d)])
       [0..<nd] row"

definition attract_row ::
  "nat list \<Rightarrow> nat list \<Rightarrow> real list \<Rightarrow> real list list \<Rightarrow> real list list \<Rightarrow> real \<Rightarrow> nat \<Rightarrow> nat
    \<Rightarrow> real list \<Rightarrow> real list" where
  "attract_row indices indptr P_data embedding reference_embedding dof nd i row =
     fold (attract_entry indices P_data embedding reference_embedding dof nd i)
       [indptr ! i..<indptr ! (i + 1)] row"

definition row_P :: "nat list \<Rightarrow> real list \<Rightarrow> bool \<Rightarrow> nat \<Rightarrow> real" where
  "row_P indptr P_data should_eval_error i =
     (if should_eval_error then (\<Sum>k\<leftarrow>[indptr ! i..<indptr ! (i + 1)]. P_data ! k) else 0)"

definition row_kl ::
  "nat list \<Rightarrow> nat list \<Rightarrow> real list \<Rightarrow> real list list \<Rightarrow> real list list \<Rightarrow> real \<Rightarrow> nat \<Rightarrow> bool
    \<Rightarrow> nat \<Rightarrow> real" where
  "row_kl indices indptr P_data embedding reference_embedding dof nd should_eval_error i =
     (if should_eval_error
      then (\<Sum>k\<leftarrow>[indptr ! i..<indptr ! (i + 1)].
              P_data ! k * ln (P_data ! k / (entry_q indices embedding reference_embedding dof nd i k + EPSILON)))
      else 0)"

section \<open>Properties\<close>

subsection \<open>Index loops\<close>

lemma fold_nth_upt: "fold (\<lambda>i. f (xs ! i)) [0..<length xs] s = fold f xs s"
proof -
  have "fold f (map ((!) xs) [0..<length xs]) s = fold (f \<circ> (!) xs) [0..<length xs] s"
    by (simp only: fold_map)
  then show ?thesis
    by (simp add: map_nth comp_def)
qed

subsection \<open>The bounding box\<close>

text \<open>The lower bound is the minimum of the embedding, whatever the order of the points.\<close>

lemma fst_fold_minmax_Fin:
  "fst (fold minmax_update xs (Fin m, hi)) = Fin (fold min xs m)"
  by (induction xs arbitrary: m hi) (auto simp: minmax_update_def min_def)

lemma bounds_1d_minimum:
  assumes "embedding \<noteq> []"
  shows "fst (bounds_1d embedding) = Fin (Min (set embedding))"
proof -
  obtain x xs where e: "embedding = x # xs"
    using assms by (cases embedding) auto
  have "fst (bounds_1d embedding) = fst (fold minmax_update embedding (PosInf, NegInf))"
    by (simp only: bounds_1d_def fold_nth_upt)
  also have "\<dots> = Fin (fold min xs x)"
    by (simp add: e minmax_update_def fst_fold_minmax_Fin)
  also have "fold min xs x = Min (set embedding)"
    by (simp only: e Min.set_eq_fold)
  finally show ?thesis .
qed

text \<open>
  The upper bound is lost whenever the first coordinate is the strict maximum: the
  first coordinate always takes the first branch.
\<close>

lemma snd_fold_minmax:
  assumes "hi = NegInf \<or> (\<exists>y\<in>S. hi = Fin y)"
  shows "snd (fold minmax_update xs (lo, hi)) = NegInf
         \<or> (\<exists>y\<in>S \<union> set xs. snd (fold minmax_update xs (lo, hi)) = Fin y)"
  using assms
proof (induction xs arbitrary: lo hi S)
  case Nil
  then show ?case by simp
next
  case (Cons x xs)
  obtain lo' hi' where step: "minmax_update x (lo, hi) = (lo', hi')"
    by (cases "minmax_update x (lo, hi)")
  then have "hi' = hi \<or> hi' = Fin x"
    by (auto simp: minmax_update_def split: if_splits)
  then have "hi' = NegInf \<or> (\<exists>y\<in>insert x S. hi' = Fin y)"
    using Cons.prems by auto
  from Cons.IH [OF this, of lo'] show ?case
    by (simp add: step)
qed

lemma bounds_1d_first_maximum_lost:
  assumes "\<forall>y\<in>set xs. y < x"
  shows "snd (bounds_1d (x # xs)) \<noteq> Fin (Max (set (x # xs)))"
proof -
  have m: "Max (set (x # xs)) = x"
    using assms by (intro Max_eqI) auto
  have "bounds_1d (x # xs) = fold minmax_update xs (Fin x, NegInf)"
    by (simp only: bounds_1d_def fold_nth_upt) (simp add: minmax_update_def)
  moreover have "snd (fold minmax_update xs (Fin x, NegInf)) = NegInf
      \<or> (\<exists>y\<in>{} \<union> set xs. snd (fold minmax_update xs (Fin x, NegInf)) = Fin y)"
    by (rule snd_fold_minmax) simp
  ultimately show ?thesis
    using assms m by auto
qed

text \<open>
  C2.  The FFT engines start by taking the bounding box of the embedding: the computed
  minimum and maximum should be the least and the greatest coordinate.  The upper
  bound is not: a coordinate that lowers the minimum never reaches the \<^verbatim>\<open>elif\<close>, so a
  maximum that stands first is lost.  On the 1-D embedding \<open>3, 1, 2\<close> the loop ends with
  \<open>y_max = 2\<close>, and on the 2-D embedding \<open>(3, 1), (2, 0)\<close> with \<open>coord_max = 2\<close>, while the
  greatest coordinate is \<open>3\<close> in both; on a single point \<open>y_max\<close> is still
  \<^verbatim>\<open>-INFINITY\<close>.
\<close>

theorem bounds_lose_leading_maximum:
  "bounds_1d [3, 1, 2] = (Fin 1, Fin 2) \<and> Max (set [3, 1, 2 :: real]) = 3
   \<and> bounds_2d [ [3, 1], [2, 0] ] = (Fin 0, Fin 2)
   \<and> Max (set (concat [ [3, 1], [2, 0 :: real] ])) = 3
   \<and> bounds_1d [5] = (Fin 5, NegInf)"
  by (simp add: bounds_1d_def bounds_2d_def minmax_update_def upt_rec)

subsection \<open>The pointwise product\<close>

lemma hadamard_body_other: "j \<noteq> i \<Longrightarrow> hadamard_body k i w ! j = w ! j"
  by (simp add: hadamard_body_def Let_def)

lemma hadamard_body_length: "length (hadamard_body k i w) = length w"
  by (simp add: hadamard_body_def Let_def)

lemma hadamard_body_at:
  "i < length w \<Longrightarrow> hadamard_body k i w ! i =
     \<lparr>real_part = real_part (w ! i) * real_part (k ! i) - imag_part (w ! i) * imag_part (k ! i),
      imag_part = (real_part (w ! i) * real_part (k ! i) - imag_part (w ! i) * imag_part (k ! i))
                    * imag_part (k ! i)
                  + real_part (k ! i) * imag_part (w ! i)\<rparr>"
  by (simp add: hadamard_body_def Let_def)

lemma fold_hadamard_length: "length (fold (hadamard_body k) js w) = length w"
  by (induction js arbitrary: w) (simp_all add: hadamard_body_length)

lemma fold_hadamard_notin: "i \<notin> set js \<Longrightarrow> fold (hadamard_body k) js w ! i = w ! i"
  by (induction js arbitrary: w) (simp_all add: hadamard_body_other)

lemma fold_hadamard_upt:
  "i < n \<Longrightarrow> n \<le> length w \<Longrightarrow> fold (hadamard_body k) [0..<n] w ! i = hadamard_body k i w ! i"
proof (induction n arbitrary: i)
  case 0
  then show ?case by simp
next
  case (Suc n)
  show ?case
  proof (cases "i = n")
    case True
    have "fold (hadamard_body k) [0..<Suc n] w = hadamard_body k n (fold (hadamard_body k) [0..<n] w)"
      by simp
    moreover have "fold (hadamard_body k) [0..<n] w ! n = w ! n"
      by (rule fold_hadamard_notin) simp
    moreover have "n < length (fold (hadamard_body k) [0..<n] w)"
      using Suc.prems by (simp add: fold_hadamard_length)
    ultimately show ?thesis using True Suc.prems
      by (simp add: hadamard_body_at)
  next
    case False
    then have "i < n" using Suc.prems by simp
    then show ?thesis using Suc False by (simp add: hadamard_body_other)
  qed
qed

text \<open>
  C3.  In the product loop of the 2-D FFT engine the real part of a coefficient is
  overwritten before it is read for the imaginary part: from a coefficient \<open>a + bi\<close>
  and a kernel value \<open>c + di\<close> the loop stores the real part \<open>a*c - b*d\<close> and the
  imaginary part \<open>(a*c - b*d)*d + c*b\<close>.  For some inputs this is not the imaginary part
  \<open>a*d + b*c\<close> of the complex product.
\<close>

theorem hadamard_product_2d_reads_new_real:
  assumes "i < n_fft_coeffs * (n_fft_coeffs div 2 + 1)"
    and "length fft_w_coeffs = n_fft_coeffs * (n_fft_coeffs div 2 + 1)"
    and "length fft_kernel_tilde = n_fft_coeffs * (n_fft_coeffs div 2 + 1)"
    and "a = real_part (fft_w_coeffs ! i)" and "b = imag_part (fft_w_coeffs ! i)"
    and "c = real_part (fft_kernel_tilde ! i)" and "d = imag_part (fft_kernel_tilde ! i)"
  shows "hadamard_product_2d n_fft_coeffs fft_kernel_tilde fft_w_coeffs ! i
           = \<lparr>real_part = a * c - b * d, imag_part = (a * c - b * d) * d + c * b\<rparr>
         \<and> (\<exists>w k. length w = 4 \<and> length k = 4
              \<and> imag_part (hadamard_product_2d 2 k w ! 0)
                  \<noteq> real_part (w ! 0) * imag_part (k ! 0) + imag_part (w ! 0) * real_part (k ! 0))"
proof
  show "hadamard_product_2d n_fft_coeffs fft_kernel_tilde fft_w_coeffs ! i
          = \<lparr>real_part = a * c - b * d, imag_part = (a * c - b * d) * d + c * b\<rparr>"
    using assms by (simp add: hadamard_product_2d_def fold_hadamard_upt hadamard_body_at)
next
  let ?u = "\<lparr>real_part = 1, imag_part = 1\<rparr>"
  have "hadamard_product_2d 2 (replicate 4 ?u) (replicate 4 ?u) ! 0 = hadamard_body (replicate 4 ?u) 0 (replicate 4 ?u) ! 0"
    by (simp add: hadamard_product_2d_def fold_hadamard_upt)
  then have "imag_part (hadamard_product_2d 2 (replicate 4 ?u) (replicate 4 ?u) ! 0) = 1"
    by (simp add: hadamard_body_at)
  then have "length (replicate 4 ?u) = 4 \<and> length (replicate 4 ?u) = 4
      \<and> imag_part (hadamard_product_2d 2 (replicate 4 ?u) (replicate 4 ?u) ! 0)
           \<noteq> real_part (replicate 4 ?u ! 0) * imag_part (replicate 4 ?u ! 0)
             + imag_part (replicate 4 ?u ! 0) * real_part (replicate 4 ?u ! 0)"
    by simp
  then show "\<exists>w k. length w = 4 \<and> length k = 4
              \<and> imag_part (hadamard_product_2d 2 k w ! 0)
                  \<noteq> real_part (w ! 0) * imag_part (k ! 0) + imag_part (w ! 0) * real_part (k ! 0)"
    by blast
qed

theorem hadamard_product_2d_reads_new_real_witness:
  "hadamard_product_2d 2 (replicate 4 \<lparr>real_part = 1, imag_part = 1\<rparr>)
      (replicate 4 \<lparr>real_part = 2, imag_part = 3\<rparr>) ! 0
     = \<lparr>real_part = -1, imag_part = 2\<rparr>"
  using hadamard_product_2d_reads_new_real [of 0 2 "replicate 4 \<lparr>real_part = 2, imag_part = 3\<rparr>"
      "replicate 4 \<lparr>real_part = 1, imag_part = 1\<rparr>" 2 3 1 1]
  by simp

subsection \<open>Loops over the slots of arrays\<close>

lemma on_slot_length [simp]:
  "length (fst (on_slot f i s)) = length (fst s)" "length (snd (on_slot f i s)) = length (snd s)"
  by (simp_all add: on_slot_def split: prod.splits)

lemma on_slot_commute:
  "on_slot f i (on_slot g j s) = on_slot g j (on_slot f i s)" if "i \<noteq> j"
  using that by (cases s) (simp add: on_slot_def list_update_swap split: prod.splits)

lemma fold_on_slot_length [simp]:
  "length (fst (fold (\<lambda>i. on_slot (F i) i) js s)) = length (fst s)"
  "length (snd (fold (\<lambda>i. on_slot (F i) i) js s)) = length (snd s)"
  by (induction js arbitrary: s) simp_all

lemma fold_on_slot_nth:
  assumes "distinct js" and "i < length A" and "i < length B"
  shows "(fst (fold (\<lambda>i. on_slot (F i) i) js (A, B)) ! i, snd (fold (\<lambda>i. on_slot (F i) i) js (A, B)) ! i)
          = (if i \<in> set js then F i (A ! i, B ! i) else (A ! i, B ! i))"
  using assms
proof (induction js arbitrary: A B)
  case Nil
  then show ?case by simp
next
  case (Cons j js)
  obtain a b where ab: "F j (A ! j, B ! j) = (a, b)"
    by (cases "F j (A ! j, B ! j)")
  then have step: "on_slot (F j) j (A, B) = (A[j := a], B[j := b])"
    by (simp add: on_slot_def)
  have "(fst (fold (\<lambda>i. on_slot (F i) i) js (A[j := a], B[j := b])) ! i,
         snd (fold (\<lambda>i. on_slot (F i) i) js (A[j := a], B[j := b])) ! i)
      = (if i \<in> set js then F i (A[j := a] ! i, B[j := b] ! i) else (A[j := a] ! i, B[j := b] ! i))"
    using Cons.prems by (intro Cons.IH) simp_all
  moreover have "i \<in> set js \<Longrightarrow> i \<noteq> j"
    using Cons.prems by auto
  ultimately show ?case
    using Cons.prems ab by (cases "i = j") (simp_all add: step)
qed

lemma fold_fold_concat: "fold (fold f) xss s = fold f (concat xss) s"
  by (induction xss arbitrary: s) simp_all

lemma prange_on_slot:
  assumes "valid_chunks t n chunks"
  shows "prange chunks (\<lambda>i. on_slot (F i) i) s = fold (\<lambda>i. on_slot (F i) i) [0..<n] s"
proof -
  have "prange chunks (\<lambda>i. on_slot (F i) i) s = fold (\<lambda>i. on_slot (F i) i) (concat chunks) s"
    by (simp add: prange_def fold_fold_concat)
  also have "fold (\<lambda>i. on_slot (F i) i) (concat chunks) = fold (\<lambda>i. on_slot (F i) i) [0..<n]"
  proof (rule fold_multiset_equiv)
    show "mset (concat chunks) = mset [0..<n]"
      using assms by (simp add: valid_chunks_def)
  next
    fix x y
    show "on_slot (F x) x \<circ> on_slot (F y) y = on_slot (F y) y \<circ> on_slot (F x) x"
      by (cases "x = y") (simp_all add: fun_eq_iff on_slot_commute)
  qed
  finally show ?thesis by simp
qed

lemma prange_on_slot_nth:
  assumes "valid_chunks t n chunks" and "i < n" and "length A = n" and "length B = n"
  shows "fst (prange chunks (\<lambda>i. on_slot (F i) i) (A, B)) ! i = fst (F i (A ! i, B ! i))"
    and "snd (prange chunks (\<lambda>i. on_slot (F i) i) (A, B)) ! i = snd (F i (A ! i, B ! i))"
proof -
  have "(fst (fold (\<lambda>i. on_slot (F i) i) [0..<n] (A, B)) ! i, snd (fold (\<lambda>i. on_slot (F i) i) [0..<n] (A, B)) ! i)
          = F i (A ! i, B ! i)"
    using assms by (subst fold_on_slot_nth) simp_all
  then show "fst (prange chunks (\<lambda>i. on_slot (F i) i) (A, B)) ! i = fst (F i (A ! i, B ! i))"
    and "snd (prange chunks (\<lambda>i. on_slot (F i) i) (A, B)) ! i = snd (F i (A ! i, B ! i))"
    using prange_on_slot [OF assms(1), of F "(A, B)"]
    by (simp_all add: prod_eq_iff)
qed

lemma valid_chunks_serial: "0 < t \<Longrightarrow> valid_chunks t n (serial t n)"
  by (simp add: valid_chunks_def serial_def)

subsection \<open>The search for the precision of a row\<close>

lemma sum_list_upt_nth: "(\<Sum>j\<leftarrow>[0..<length xs]. f (xs ! j)) = (\<Sum>x\<leftarrow>xs. f x)"
proof -
  have "map (\<lambda>j. f (xs ! j)) [0..<length xs] = map f (map ((!) xs) [0..<length xs])"
    by simp
  then show ?thesis
    by (simp only: map_nth)
qed

lemma map_upt_nth: "map (\<lambda>j. f (xs ! j)) [0..<length xs] = map f xs"
proof -
  have "map (\<lambda>j. f (xs ! j)) [0..<length xs] = map f (map ((!) xs) [0..<length xs])"
    by simp
  then show ?thesis
    by (simp only: map_nth)
qed

lemma accumulate_row_fields [simp]:
  "beta_i (accumulate_row ds j s) = beta_i s"
  "min_beta (accumulate_row ds j s) = min_beta s"
  "max_beta (accumulate_row ds j s) = max_beta s"
  "entropy_diff (accumulate_row ds j s) = entropy_diff s"
  "length (P_i (accumulate_row ds j s)) = length (P_i s)"
  by (simp_all add: accumulate_row_def Let_def)

lemma fold_accumulate_row:
  assumes "m \<le> length (P_i s)"
  shows "fold (accumulate_row ds) [0..<m] s =
     s\<lparr>P_i := map (\<lambda>j. exp (- (ds ! j) * beta_i s)) [0..<m] @ drop m (P_i s),
       entropy := entropy s + (\<Sum>j\<leftarrow>[0..<m]. ds ! j * exp (- (ds ! j) * beta_i s)),
       sum_Pi := sum_Pi s + (\<Sum>j\<leftarrow>[0..<m]. exp (- (ds ! j) * beta_i s))\<rparr>"
  using assms
proof (induction m)
  case 0
  then show ?case by simp
next
  case (Suc m)
  let ?e = "\<lambda>j. exp (- (ds ! j) * beta_i s)"
  have len: "length (map ?e [0..<m]) = m" by simp
  have "(map ?e [0..<m] @ drop m (P_i s))[m := ?e m] = map ?e [0..<Suc m] @ drop (Suc m) (P_i s)"
    using Suc.prems
    by (simp add: list_update_append Cons_nth_drop_Suc [symmetric])
  moreover have "(map ?e [0..<Suc m] @ drop (Suc m) (P_i s)) ! m = ?e m"
    by (simp add: nth_append)
  ultimately show ?case
    using Suc by (simp add: accumulate_row_def Let_def algebra_simps)
qed


lemma evaluate_beta_eq:
  assumes "length ds = n" and "length (P_i s) = n"
  shows "evaluate_beta ds n H s =
     s\<lparr>P_i := map (\<lambda>d. exp (- d * beta_i s)) ds,
       sum_Pi := (\<Sum>d\<leftarrow>ds. exp (- d * beta_i s)) + EPSILON,
       entropy := ln ((\<Sum>d\<leftarrow>ds. exp (- d * beta_i s)) + EPSILON)
                  + beta_i s * (\<Sum>d\<leftarrow>ds. d * exp (- d * beta_i s))
                    / ((\<Sum>d\<leftarrow>ds. exp (- d * beta_i s)) + EPSILON),
       entropy_diff := ln ((\<Sum>d\<leftarrow>ds. exp (- d * beta_i s)) + EPSILON)
                  + beta_i s * (\<Sum>d\<leftarrow>ds. d * exp (- d * beta_i s))
                    / ((\<Sum>d\<leftarrow>ds. exp (- d * beta_i s)) + EPSILON) - H\<rparr>"
proof -
  have "fold (accumulate_row ds) [0..<n] (s\<lparr>sum_Pi := 0, entropy := 0\<rparr>) =
      s\<lparr>P_i := map (\<lambda>d. exp (- d * beta_i s)) ds,
        entropy := (\<Sum>d\<leftarrow>ds. d * exp (- d * beta_i s)),
        sum_Pi := (\<Sum>d\<leftarrow>ds. exp (- d * beta_i s))\<rparr>"
    using assms
      map_upt_nth [of "\<lambda>d. exp (- d * beta_i s)" ds]
      sum_list_upt_nth [of "\<lambda>d. exp (- d * beta_i s)" ds]
      sum_list_upt_nth [of "\<lambda>d. d * exp (- d * beta_i s)" ds]
    by (simp add: fold_accumulate_row)
  then show ?thesis
    by (simp add: evaluate_beta_def Let_def)
qed

lemma update_beta_fields [simp]:
  "P_i (update_beta s) = P_i s"
  "sum_Pi (update_beta s) = sum_Pi s"
  "entropy (update_beta s) = entropy s"
  "entropy_diff (update_beta s) = entropy_diff s"
  by (simp_all add: update_beta_def Let_def split: bound.splits)

lemma evaluated_beta_update:
  "\<not> \<bar>entropy_diff s\<bar> \<le> tol \<Longrightarrow> evaluated_beta tol (update_beta s) = beta_i s"
  by (auto simp: evaluated_beta_def update_beta_def Let_def split: bound.splits)

lemma binary_search_done:
  assumes "iteration < max_iter" and "length ds = n" and "length (P_i s) = n"
  shows "row_done ds tol (fst (binary_search ds n H tol max_iter iteration s))"
  using assms
proof (induction ds n H tol max_iter iteration s rule: binary_search.induct)
  case (1 ds n H tol max_iter iteration s)
  let ?s1 = "evaluate_beta ds n H s"
  have s1: "P_i ?s1 = map (\<lambda>d. exp (- d * beta_i s)) ds"
    "sum_Pi ?s1 = (\<Sum>d\<leftarrow>ds. exp (- d * beta_i s)) + EPSILON"
    "beta_i ?s1 = beta_i s"
    using "1.prems" by (simp_all add: evaluate_beta_eq)
  show ?case
  proof (cases "\<bar>entropy_diff ?s1\<bar> \<le> tol")
    case True
    then have "fst (binary_search ds n H tol max_iter iteration s) = ?s1"
      using "1.prems" by (simp add: binary_search.simps [of ds n H tol max_iter iteration s])
    moreover have "evaluated_beta tol ?s1 = beta_i s"
      using True s1 by (simp add: evaluated_beta_def)
    ultimately show ?thesis
      using s1 by (simp add: row_done_def)
  next
    case False
    have step: "binary_search ds n H tol max_iter iteration s
        = binary_search ds n H tol max_iter (iteration + 1) (update_beta ?s1)"
      using "1.prems" False by (simp add: binary_search.simps [of ds n H tol max_iter iteration s])
    show ?thesis
    proof (cases "iteration + 1 < max_iter")
      case True
      have "length (P_i (update_beta ?s1)) = n"
        using s1 "1.prems" by simp
      then show ?thesis
        using "1.IH" [OF _ refl False True] "1.prems" step by simp
    next
      case last: False
      have "binary_search ds n H tol max_iter (iteration + 1) (update_beta ?s1)
          = (update_beta ?s1, iteration + 1)"
        using last by (simp add: binary_search.simps [of ds n H tol max_iter "iteration + 1"])
      moreover have "evaluated_beta tol (update_beta ?s1) = beta_i s"
        using False s1 by (simp add: evaluated_beta_update)
      ultimately show ?thesis
        using step s1 by (simp add: row_done_def)
    qed
  qed
qed


lemma binary_search_length:
  "length (P_i s) = n \<Longrightarrow> length ds = n \<Longrightarrow>
   length (P_i (fst (binary_search ds n H tol max_iter iteration s))) = n"
proof (induction ds n H tol max_iter iteration s rule: binary_search.induct)
  case (1 ds n H tol max_iter iteration s)
  let ?s1 = "evaluate_beta ds n H s"
  have len: "length (P_i ?s1) = n"
    using "1.prems" by (simp add: evaluate_beta_eq)
  show ?case
  proof (cases "iteration < max_iter")
    case True
    show ?thesis
    proof (cases "\<bar>entropy_diff ?s1\<bar> \<le> tol")
      case conv: True
      then show ?thesis
        using True len by (simp add: binary_search.simps [of ds n H tol max_iter iteration s])
    next
      case False
      then show ?thesis
        using True len "1.IH" [OF True refl False] "1.prems"
        by (simp add: binary_search.simps [of ds n H tol max_iter iteration s])
    qed
  next
    case False
    then show ?thesis
      using "1.prems" by (simp add: binary_search.simps [of ds n H tol max_iter iteration s])
  qed
qed

lemma fold_divide_row:
  assumes "m \<le> length (P_i s)"
  shows "fold (\<lambda>j s. s\<lparr>P_i := (P_i s)[j := P_i s ! j / sum_Pi s]\<rparr>) [0..<m] s
     = s\<lparr>P_i := map (\<lambda>x. x / sum_Pi s) (take m (P_i s)) @ drop m (P_i s)\<rparr>"
  using assms
proof (induction m)
  case 0
  then show ?case by simp
next
  case (Suc m)
  let ?f = "\<lambda>x. x / sum_Pi s"
  have "(map ?f (take m (P_i s)) @ drop m (P_i s))[m := ?f (P_i s ! m)]
      = map ?f (take (Suc m) (P_i s)) @ drop (Suc m) (P_i s)"
    using Suc.prems
    by (simp add: list_update_append take_Suc_conv_app_nth Cons_nth_drop_Suc [symmetric])
  moreover have "(map ?f (take m (P_i s)) @ drop m (P_i s)) ! m = P_i s ! m"
    using Suc.prems by (simp add: nth_append)
  ultimately show ?case
    using Suc by simp
qed

lemma evaluated_beta_P_i [simp]: "evaluated_beta tol (s\<lparr>P_i := x\<rparr>) = evaluated_beta tol s"
  by (simp add: evaluated_beta_def split: bound.splits)

lemma calibrate_row_eq:
  assumes "0 < max_iter" and "length ds = n" and "length (P_i s) = n"
  shows "P_i (calibrate_row ds n H tol max_iter s)
           = gaussian_row (evaluated_beta tol (calibrate_row ds n H tol max_iter s)) ds"
proof -
  let ?s1 = "s\<lparr>min_beta := NegInf, max_beta := PosInf\<rparr>"
  let ?s2 = "fst (binary_search ds n H tol max_iter 0 ?s1)"
  have inv: "row_done ds tol ?s2"
    using assms by (intro binary_search_done) simp_all
  have len: "length (P_i ?s2) = n"
    using assms by (intro binary_search_length) simp_all
  have r: "calibrate_row ds n H tol max_iter s = ?s2\<lparr>P_i := map (\<lambda>x. x / sum_Pi ?s2) (P_i ?s2)\<rparr>"
    using len by (simp add: calibrate_row_def Let_def fold_divide_row)
  have "evaluated_beta tol (calibrate_row ds n H tol max_iter s) = evaluated_beta tol ?s2"
    by (simp add: r)
  then show ?thesis
    using inv by (simp add: r row_done_def gaussian_row_def)
qed

lemma evaluate_beta_diff:
  "entropy_diff (evaluate_beta ds n H s) = entropy (evaluate_beta ds n H s) - H"
  by (simp add: evaluate_beta_def Let_def)

lemma binary_search_count:
  "iteration \<le> snd (binary_search ds n H tol max_iter iteration s)
   \<and> snd (binary_search ds n H tol max_iter iteration s) \<le> max iteration max_iter"
proof (induction ds n H tol max_iter iteration s rule: binary_search.induct)
  case (1 ds n H tol max_iter iteration s)
  show ?case
  proof (cases "iteration < max_iter")
    case True
    show ?thesis
    proof (cases "\<bar>entropy_diff (evaluate_beta ds n H s)\<bar> \<le> tol")
      case conv: True
      then show ?thesis
        using True by (simp add: binary_search.simps [of ds n H tol max_iter iteration s])
    next
      case False
      then show ?thesis
        using True "1.IH" [OF True refl False]
        by (simp add: binary_search.simps [of ds n H tol max_iter iteration s])
    qed
  next
    case False
    then show ?thesis
      by (simp add: binary_search.simps [of ds n H tol max_iter iteration s])
  qed
qed

text \<open>
  C7.  In an iteration of the search that misses the tolerance, the loop goes on with
  the next index and the updated bracket.  When the entropy exceeds the logarithm of
  the perplexity, the lower bound becomes the current precision, which is doubled while
  the upper bound is infinite and is otherwise replaced by its midpoint with the upper
  bound.  When the entropy is below it, the upper bound becomes the current precision,
  which is halved while the lower bound is infinite and is otherwise replaced by its
  midpoint with the lower bound.  A row runs at most \<open>max_iter\<close> iterations (none when
  \<open>max_iter\<close> is not positive).
\<close>

theorem binary_search_step:
  assumes "iteration < max_iter"
    and "s1 = evaluate_beta distances_i n_existing_points (ln desired_perplexity) s"
    and "\<not> \<bar>entropy_diff s1\<bar> \<le> perplexity_tol"
  shows "binary_search distances_i n_existing_points (ln desired_perplexity) perplexity_tol max_iter iteration s
           = binary_search distances_i n_existing_points (ln desired_perplexity) perplexity_tol max_iter
               (iteration + 1) (update_beta s1)
       \<and> (entropy s1 > ln desired_perplexity \<longrightarrow>
            min_beta (update_beta s1) = Fin (beta_i s1) \<and> max_beta (update_beta s1) = max_beta s1
            \<and> (isinf (max_beta s1) \<longrightarrow> beta_i (update_beta s1) = beta_i s1 * 2)
            \<and> (\<forall>m. max_beta s1 = Fin m \<longrightarrow> beta_i (update_beta s1) = (beta_i s1 + m) / 2))
       \<and> (entropy s1 < ln desired_perplexity \<longrightarrow>
            max_beta (update_beta s1) = Fin (beta_i s1) \<and> min_beta (update_beta s1) = min_beta s1
            \<and> (isinf (min_beta s1) \<longrightarrow> beta_i (update_beta s1) = beta_i s1 / 2)
            \<and> (\<forall>m. min_beta s1 = Fin m \<longrightarrow> beta_i (update_beta s1) = (beta_i s1 + m) / 2))
       \<and> 0 \<le> snd (binary_search distances_i n_existing_points (ln desired_perplexity) perplexity_tol max_iter 0 s0)
       \<and> snd (binary_search distances_i n_existing_points (ln desired_perplexity) perplexity_tol max_iter 0 s0)
            \<le> max 0 max_iter"
proof -
  have d: "entropy_diff s1 = entropy s1 - ln desired_perplexity"
    using assms(2) by (simp add: evaluate_beta_diff)
  have "binary_search distances_i n_existing_points (ln desired_perplexity) perplexity_tol max_iter iteration s
           = binary_search distances_i n_existing_points (ln desired_perplexity) perplexity_tol max_iter
               (iteration + 1) (update_beta s1)"
    using assms
    by (simp add: binary_search.simps [of distances_i n_existing_points "ln desired_perplexity"
          perplexity_tol max_iter iteration s])
  moreover have "entropy s1 > ln desired_perplexity \<longrightarrow>
            min_beta (update_beta s1) = Fin (beta_i s1) \<and> max_beta (update_beta s1) = max_beta s1
            \<and> (isinf (max_beta s1) \<longrightarrow> beta_i (update_beta s1) = beta_i s1 * 2)
            \<and> (\<forall>m. max_beta s1 = Fin m \<longrightarrow> beta_i (update_beta s1) = (beta_i s1 + m) / 2)"
    using d by (cases "max_beta s1") (simp_all add: update_beta_def Let_def)
  moreover have "entropy s1 < ln desired_perplexity \<longrightarrow>
            max_beta (update_beta s1) = Fin (beta_i s1) \<and> min_beta (update_beta s1) = min_beta s1
            \<and> (isinf (min_beta s1) \<longrightarrow> beta_i (update_beta s1) = beta_i s1 / 2)
            \<and> (\<forall>m. min_beta s1 = Fin m \<longrightarrow> beta_i (update_beta s1) = (beta_i s1 + m) / 2)"
    using d by (cases "min_beta s1") (simp_all add: update_beta_def Let_def)
  moreover have "0 \<le> snd (binary_search distances_i n_existing_points (ln desired_perplexity) perplexity_tol max_iter 0 s0)
       \<and> snd (binary_search distances_i n_existing_points (ln desired_perplexity) perplexity_tol max_iter 0 s0)
            \<le> max 0 max_iter"
    using binary_search_count [where iteration = 0 and max_iter = max_iter and s = s0]
    by simp
  ultimately show ?thesis
    by blast
qed

subsection \<open>One row with one neighbour\<close>

lemma compute_gaussian_perplexity_row:
  assumes "valid_chunks (nat (clamp_threads num_threads)) (length distances)
           (sched (nat (clamp_threads num_threads)) (length distances))"
    and "i < length distances"
  shows "compute_gaussian_perplexity sched unset distances desired_perplexity perplexity_tol max_iter num_threads ! i
     = P_i (calibrate_row (distances ! i) (shape1 distances) (ln desired_perplexity) perplexity_tol
               max_iter (row_start unset (distances ! i)))"
proof -
  let ?F = "\<lambda>i (P_row, b).
        let s = calibrate_row (distances ! i) (shape1 distances) (ln desired_perplexity) perplexity_tol max_iter
                  \<lparr>P_i = P_row, beta_i = b, min_beta = NegInf, max_beta = PosInf,
                   sum_Pi = unset, entropy = unset, entropy_diff = unset\<rparr>
        in (P_i s, beta_i s)"
  let ?P0 = "map (map (\<lambda>_. 0 :: real)) distances"
  let ?b0 = "replicate (length distances) (1 :: real)"
  have body: "perplexity_body unset distances (shape1 distances) (ln desired_perplexity) perplexity_tol max_iter
      = (\<lambda>i. on_slot (?F i) i)"
    by (simp add: perplexity_body_def fun_eq_iff)
  have "compute_gaussian_perplexity sched unset distances desired_perplexity perplexity_tol max_iter num_threads
      = fst (prange (sched (nat (clamp_threads num_threads)) (length distances)) (\<lambda>i. on_slot (?F i) i) (?P0, ?b0))"
    by (simp add: compute_gaussian_perplexity_def Let_def body split: prod.splits)
  also have "\<dots> ! i = fst (?F i (?P0 ! i, ?b0 ! i))"
    using assms by (intro prange_on_slot_nth(1)) simp_all
  also have "\<dots> = P_i (calibrate_row (distances ! i) (shape1 distances) (ln desired_perplexity) perplexity_tol
               max_iter (row_start unset (distances ! i)))"
    using assms by (simp add: row_start_def Let_def)
  finally show ?thesis .
qed

lemma EPSILON_pos: "0 < EPSILON"
  by (simp add: EPSILON_def)

lemma EPSILON_le_half: "EPSILON \<le> 1 / 2"
proof -
  have "(2::real) ^ 1 \<le> 2 ^ 52"
    by (rule power_increasing) simp_all
  then show ?thesis
    by (simp add: EPSILON_def field_simps)
qed

lemma exp_minus_one_le_half: "exp (- 1 :: real) \<le> 1 / 2"
proof -
  have "(2::real) \<le> exp 1"
    using exp_ge_add_one_self [of "1::real"] by simp
  then show ?thesis
    by (simp add: exp_minus field_simps)
qed

lemma ln_30_gt_3: "3 < ln (30 :: real)"
proof -
  have "exp (3 :: real) = exp 1 ^ 3"
    using exp_of_nat_mult [of 3 "1::real"] by simp
  also have "\<dots> \<le> 3 ^ 3"
    by (rule power_mono) (simp_all add: exp_le)
  finally have "exp (3 :: real) < 30"
    by simp
  then have "exp (3 :: real) < exp (ln 30)"
    by simp
  then show ?thesis
    by (simp only: exp_less_cancel_iff)
qed

text \<open>One distance 1, precision 1, target perplexity 30: the entropy is far too small.\<close>

lemma first_entropy_diff:
  "ln (exp (- 1) + EPSILON) + 1 * (1 * exp (- 1)) / (exp (- 1) + EPSILON) - ln 30 < - 2"
proof -
  have "exp (- 1 :: real) + EPSILON \<le> 1"
    using exp_minus_one_le_half EPSILON_le_half by linarith
  moreover have "0 < exp (- 1 :: real) + EPSILON"
    using EPSILON_pos by (simp add: add_pos_pos)
  ultimately have "ln (exp (- 1) + EPSILON) \<le> 0"
    by simp
  moreover have "exp (- 1) / (exp (- 1) + EPSILON) \<le> 1"
    using EPSILON_pos by (simp add: field_simps add_pos_pos)
  ultimately show ?thesis
    using ln_30_gt_3 by simp
qed

lemma binary_search_last:
  assumes "iteration < max_iter" and "\<not> iteration + 1 < max_iter"
    and "\<not> \<bar>entropy_diff (evaluate_beta ds n H s)\<bar> \<le> tol"
  shows "binary_search ds n H tol max_iter iteration s = (update_beta (evaluate_beta ds n H s), iteration + 1)"
proof -
  have "binary_search ds n H tol max_iter iteration s
      = binary_search ds n H tol max_iter (iteration + 1) (update_beta (evaluate_beta ds n H s))"
    using assms by (simp add: binary_search.simps [of ds n H tol max_iter iteration s])
  also have "\<dots> = (update_beta (evaluate_beta ds n H s), iteration + 1)"
    using assms by (simp add: binary_search.simps [of ds n H tol max_iter "iteration + 1"])
  finally show ?thesis .
qed

lemma binary_search_none:
  "\<not> iteration < max_iter \<Longrightarrow> binary_search ds n H tol max_iter iteration s = (s, iteration)"
  by (simp add: binary_search.simps [of ds n H tol max_iter iteration s])

lemma first_evaluation:
  assumes "n = 1"
  shows "evaluate_beta [1] n (ln 30) (row_start u [1])
     = \<lparr>P_i = [exp (- 1)], beta_i = 1, min_beta = NegInf, max_beta = PosInf,
        sum_Pi = exp (- 1) + EPSILON,
        entropy = ln (exp (- 1) + EPSILON) + 1 * (1 * exp (- 1)) / (exp (- 1) + EPSILON),
        entropy_diff = ln (exp (- 1) + EPSILON) + 1 * (1 * exp (- 1)) / (exp (- 1) + EPSILON) - ln 30\<rparr>"
  using assms by (simp add: row_start_def evaluate_beta_eq)

lemma calibrate_one_iteration:
  assumes "n = 1" and "tol < 2"
  shows "calibrate_row [1] n (ln 30) tol 1 (row_start u [1])
     = \<lparr>P_i = [exp (- 1) / (exp (- 1) + EPSILON)], beta_i = 1 / 2, min_beta = NegInf, max_beta = Fin 1,
        sum_Pi = exp (- 1) + EPSILON,
        entropy = ln (exp (- 1) + EPSILON) + 1 * (1 * exp (- 1)) / (exp (- 1) + EPSILON),
        entropy_diff = ln (exp (- 1) + EPSILON) + 1 * (1 * exp (- 1)) / (exp (- 1) + EPSILON) - ln 30\<rparr>"
proof -
  define s where "s = \<lparr>P_i = [0], beta_i = 1, min_beta = NegInf, max_beta = PosInf,
      sum_Pi = u, entropy = u, entropy_diff = u\<rparr>"
  define d where "d = ln (exp (- 1) + EPSILON) + 1 * (1 * exp (- 1)) / (exp (- 1) + EPSILON) - ln 30"
  define s1 where "s1 = evaluate_beta [1] n (ln 30) s"
  have e: "s1 = \<lparr>P_i = [exp (- 1)], beta_i = 1, min_beta = NegInf, max_beta = PosInf,
        sum_Pi = exp (- 1) + EPSILON,
        entropy = ln (exp (- 1) + EPSILON) + 1 * (1 * exp (- 1)) / (exp (- 1) + EPSILON),
        entropy_diff = d\<rparr>"
    using assms(1) first_evaluation [of n u] by (simp add: s1_def s_def d_def row_start_def)
  have d: "d < - 2"
    unfolding d_def by (rule first_entropy_diff)
  have nc: "\<not> \<bar>d\<bar> \<le> tol" "\<not> 0 < d"
    using d assms(2) by linarith+
  have "\<not> \<bar>entropy_diff s1\<bar> \<le> tol"
    using nc by (simp add: e)
  then have "binary_search [1] n (ln 30) tol 1 0 s = (update_beta s1, 0 + 1)"
    unfolding s1_def by (intro binary_search_last) simp_all
  moreover have "update_beta s1
     = \<lparr>P_i = [exp (- 1)], beta_i = 1 / 2, min_beta = NegInf, max_beta = Fin 1,
        sum_Pi = exp (- 1) + EPSILON,
        entropy = ln (exp (- 1) + EPSILON) + 1 * (1 * exp (- 1)) / (exp (- 1) + EPSILON),
        entropy_diff = d\<rparr>"
    using nc by (simp add: e update_beta_def Let_def)
  ultimately show ?thesis
    using assms by (simp add: calibrate_row_def row_start_def Let_def s_def d_def)
qed

lemma calibrate_no_iteration:
  assumes "n = 1"
  shows "calibrate_row [1] n (ln 30) tol 0 (row_start 1 [1])
     = \<lparr>P_i = [0], beta_i = 1, min_beta = NegInf, max_beta = PosInf,
        sum_Pi = 1, entropy = 1, entropy_diff = 1\<rparr>"
  using assms by (simp add: calibrate_row_def row_start_def Let_def binary_search_none)

lemma gaussian_row_injective:
  assumes "gaussian_row a [1] = gaussian_row b [1]"
  shows "a = b"
proof -
  have "exp (- a) / (exp (- a) + EPSILON) = exp (- b) / (exp (- b) + EPSILON)"
    using assms by (simp add: gaussian_row_def)
  moreover have "0 < exp (- a) + EPSILON" "0 < exp (- b) + EPSILON"
    using EPSILON_pos by (simp_all add: add_pos_pos)
  ultimately have "exp (- a) * (exp (- b) + EPSILON) = exp (- b) * (exp (- a) + EPSILON)"
    by (simp add: field_simps)
  then have "exp (- a) * EPSILON = exp (- b) * EPSILON"
    by (simp add: algebra_simps)
  then have "exp (- a) = exp (- b)"
    using EPSILON_pos by simp
  then show ?thesis
    by simp
qed


theorem binary_search_step_witness:
  "(0 :: int) < 200
   \<and> \<not> \<bar>entropy_diff (evaluate_beta [1] 1 (ln 30) (row_start 0 [1]))\<bar> \<le> 1 / 10 ^ 8
   \<and> binary_search [1] 1 (ln 30) (1 / 10 ^ 8) 200 0 (row_start 0 [1])
       = binary_search [1] 1 (ln 30) (1 / 10 ^ 8) 200 1
           (update_beta (evaluate_beta [1] 1 (ln 30) (row_start 0 [1])))
   \<and> max_beta (update_beta (evaluate_beta [1] 1 (ln 30) (row_start 0 [1]))) = Fin 1
   \<and> beta_i (update_beta (evaluate_beta [1] 1 (ln 30) (row_start 0 [1]))) = 1 / 2
   \<and> snd (binary_search [1] 1 (ln 30) (1 / 10 ^ 8) 200 0 (row_start 0 [1])) \<le> 200"
proof -
  define s1 where "s1 = evaluate_beta [1] 1 (ln 30) (row_start 0 [1])"
  have d: "entropy_diff s1 < - 2" "entropy s1 < ln 30 - 2"
    "min_beta s1 = NegInf" "beta_i s1 = 1"
    using first_entropy_diff by (simp_all add: s1_def first_evaluation)
  have small: "(1 / 10 ^ 8 :: real) < 2"
    by simp
  have nc: "\<not> \<bar>entropy_diff s1\<bar> \<le> 1 / 10 ^ 8"
    using d(1) small by linarith
  have lt: "entropy s1 < ln 30"
    using d(2) by linarith
  note T = binary_search_step [where iteration = 0 and max_iter = 200 and ?s1.0 = s1
        and distances_i = "[1]" and n_existing_points = 1 and desired_perplexity = 30
        and s = "row_start 0 [1]" and perplexity_tol = "1 / 10 ^ 8" and ?s0.0 = "row_start 0 [1]",
        OF _ s1_def nc]
  have pos: "(0 :: int) < 200"
    by simp
  have a: "binary_search [1] 1 (ln 30) (1 / 10 ^ 8) 200 0 (row_start 0 [1])
       = binary_search [1] 1 (ln 30) (1 / 10 ^ 8) 200 1 (update_beta s1)"
    using T [OF pos, THEN conjunct1] by simp
  have b: "max_beta (update_beta s1) = Fin 1 \<and> beta_i (update_beta s1) = 1 / 2"
    using T [OF pos, THEN conjunct2, THEN conjunct2, THEN conjunct1] lt d(3,4) by simp
  have c: "snd (binary_search [1] 1 (ln 30) (1 / 10 ^ 8) 200 0 (row_start 0 [1])) \<le> 200"
    using T [OF pos, THEN conjunct2, THEN conjunct2, THEN conjunct2, THEN conjunct2] by simp
  show ?thesis
    unfolding s1_def [symmetric] using pos nc a b c by blast
qed

text \<open>
  C6, in the form that holds of the code. No call raises an error; running out of iterations
  is not a case of its own in the code. When \<open>max_iter\<close> is at least one, row
  \<open>i\<close> of the result holds \<open>exp (- distances[i, j] * b)\<close> divided by
  the sum over \<open>j\<close> of these values plus \<open>EPSILON\<close>, where
  \<open>b\<close> is the precision that the last executed iteration of the row evaluated:
  the final \<open>beta[i]\<close> when that iteration met the tolerance, and otherwise the
  end of the bracket that the iteration set to the precision it had evaluated. In the second
  case \<open>beta[i]\<close> has been replaced once more after \<open>P\<close> was
  computed, and that last value is not the one behind the returned row.
\<close>

theorem gaussian_perplexity_rows:
  assumes "1 \<le> max_iter"
    and "valid_chunks (nat (clamp_threads num_threads)) (length distances)
           (sched (nat (clamp_threads num_threads)) (length distances))"
    and "i < length distances"
    and "length (distances ! i) = shape1 distances"
  shows "compute_gaussian_perplexity sched unset distances desired_perplexity perplexity_tol max_iter num_threads ! i
     = gaussian_row
         (evaluated_beta perplexity_tol
            (calibrate_row (distances ! i) (shape1 distances) (ln desired_perplexity) perplexity_tol
               max_iter (row_start unset (distances ! i))))
         (distances ! i)"
proof -
  have "compute_gaussian_perplexity sched unset distances desired_perplexity perplexity_tol max_iter num_threads ! i
     = P_i (calibrate_row (distances ! i) (shape1 distances) (ln desired_perplexity) perplexity_tol
               max_iter (row_start unset (distances ! i)))"
    using assms(2,3) by (rule compute_gaussian_perplexity_row)
  also have "\<dots> = gaussian_row
         (evaluated_beta perplexity_tol
            (calibrate_row (distances ! i) (shape1 distances) (ln desired_perplexity) perplexity_tol
               max_iter (row_start unset (distances ! i))))
         (distances ! i)"
    using assms by (intro calibrate_row_eq) (simp_all add: row_start_def)
  finally show ?thesis .
qed

theorem gaussian_perplexity_rows_witness:
  "(1 :: int) \<le> 1
   \<and> valid_chunks (nat (clamp_threads 2)) (length [ [1 :: real] ])
        (serial (nat (clamp_threads 2)) (length [ [1 :: real] ]))
   \<and> compute_gaussian_perplexity serial 0 [ [1] ] 30 (1 / 10 ^ 8) 1 2 ! 0 = gaussian_row 1 [1]"
proof -
  have v: "valid_chunks (nat (clamp_threads 2)) (length [ [1 :: real] ])
        (serial (nat (clamp_threads 2)) (length [ [1 :: real] ]))"
    by (simp add: valid_chunks_serial clamp_threads_def)
  have n: "shape1 [ [1::real] ] = 1"
    by (simp add: shape1_def)
  have "evaluated_beta (1 / 10 ^ 8)
      (calibrate_row [1] (shape1 [ [1::real] ]) (ln 30) (1 / 10 ^ 8) 1 (row_start 0 [1])) = 1"
    using first_entropy_diff by (simp add: calibrate_one_iteration n evaluated_beta_def)
  then show ?thesis
    using v gaussian_perplexity_rows [where sched = serial and num_threads = 2
        and distances = "[ [1] ]" and i = 0 and unset = 0 and desired_perplexity = 30
        and perplexity_tol = "1 / 10 ^ 8" and max_iter = 1]
    by (simp add: n)
qed

text \<open>
  C6 as it is stated fails on one row with the single distance \<open>1\<close>, target perplexity
  \<open>30\<close> and tolerance \<open>1e-8\<close>.  With \<open>max_iter = 1\<close> the only iteration evaluates the
  precision \<open>1\<close>, misses the tolerance and halves \<open>beta[0]\<close>: the returned row is the one
  for the precision \<open>1\<close>, the final \<open>beta[0]\<close> is \<open>1/2\<close>, and the two rows differ.  With
  \<open>max_iter = 0\<close> no precision is evaluated at all: the row of zeros is divided by a
  variable that was never assigned.
\<close>

theorem gaussian_perplexity_not_final_beta:
  "compute_gaussian_perplexity serial 0 [ [1] ] 30 (1 / 10 ^ 8) 1 1 ! 0 = gaussian_row 1 [1]
   \<and> beta_i (calibrate_row [1] 1 (ln 30) (1 / 10 ^ 8) 1 (row_start 0 [1])) = 1 / 2
   \<and> gaussian_row 1 [1] \<noteq> gaussian_row (1 / 2) [1]
   \<and> compute_gaussian_perplexity serial 1 [ [1] ] 30 (1 / 10 ^ 8) 0 1 ! 0 = [0]
   \<and> beta_i (calibrate_row [1] 1 (ln 30) (1 / 10 ^ 8) 0 (row_start 1 [1])) = 1
   \<and> gaussian_row 1 [1] \<noteq> [0]"
proof -
  have v: "valid_chunks (nat (clamp_threads 1)) (length [ [1::real] ])
      (serial (nat (clamp_threads 1)) (length [ [1::real] ]))"
    by (simp add: valid_chunks_serial clamp_threads_def)
  have n: "shape1 [ [1::real] ] = 1"
    by (simp add: shape1_def)
  have "compute_gaussian_perplexity serial 0 [ [1] ] 30 (1 / 10 ^ 8) 1 1 ! 0
      = P_i (calibrate_row [1] (shape1 [ [1::real] ]) (ln 30) (1 / 10 ^ 8) 1 (row_start 0 [1]))"
    using v compute_gaussian_perplexity_row [where sched = serial and num_threads = 1
        and distances = "[ [1] ]" and i = 0 and unset = 0 and desired_perplexity = 30
        and perplexity_tol = "1 / 10 ^ 8" and max_iter = 1]
    by simp
  then have a: "compute_gaussian_perplexity serial 0 [ [1] ] 30 (1 / 10 ^ 8) 1 1 ! 0 = gaussian_row 1 [1]"
    by (simp add: calibrate_one_iteration n gaussian_row_def)
  have "compute_gaussian_perplexity serial 1 [ [1] ] 30 (1 / 10 ^ 8) 0 1 ! 0
      = P_i (calibrate_row [1] (shape1 [ [1::real] ]) (ln 30) (1 / 10 ^ 8) 0 (row_start 1 [1]))"
    using v compute_gaussian_perplexity_row [where sched = serial and num_threads = 1
        and distances = "[ [1] ]" and i = 0 and unset = 1 and desired_perplexity = 30
        and perplexity_tol = "1 / 10 ^ 8" and max_iter = 0]
    by simp
  then have b: "compute_gaussian_perplexity serial 1 [ [1] ] 30 (1 / 10 ^ 8) 0 1 ! 0 = [0]"
    by (simp add: calibrate_no_iteration n)
  have c: "gaussian_row 1 [1] \<noteq> gaussian_row (1 / 2) [1]"
    using gaussian_row_injective [of 1 "1 / 2"] by auto
  have "0 < exp (- 1 :: real) + EPSILON"
    using EPSILON_pos by (simp add: add_pos_pos)
  then have d: "gaussian_row 1 [1] \<noteq> [0]"
    by (simp add: gaussian_row_def)
  have e: "beta_i (calibrate_row [1] 1 (ln 30) (1 / 10 ^ 8) 1 (row_start 0 [1])) = 1 / 2"
    by (simp add: calibrate_one_iteration)
  have f: "beta_i (calibrate_row [1] 1 (ln 30) (1 / 10 ^ 8) 0 (row_start 1 [1])) = 1"
    by (simp add: calibrate_no_iteration)
  show ?thesis
    using a b c d e f by blast
qed

subsection \<open>The Barnes-Hut walk\<close>

lemma fold_update_map:
  "m \<le> length xs \<Longrightarrow> fold (\<lambda>j xs. xs[j := f j (xs ! j)]) [0..<m] xs
     = map (\<lambda>j. f j (xs ! j)) [0..<m] @ drop m xs"
proof (induction m)
  case 0
  then show ?case by simp
next
  case (Suc m)
  let ?g = "\<lambda>j. f j (xs ! j)"
  have "(map ?g [0..<m] @ drop m xs)[m := f m ((map ?g [0..<m] @ drop m xs) ! m)]
      = map ?g [0..<Suc m] @ drop (Suc m) xs"
    using Suc.prems
    by (simp add: list_update_append nth_append Cons_nth_drop_Suc [symmetric])
  then show ?case
    using Suc by simp
qed

lemma fold_update_map_all:
  "length xs = n \<Longrightarrow> fold (\<lambda>j xs. xs[j := f (xs ! j)]) [0..<n] xs = map f xs"
proof -
  assume n: "length xs = n"
  have "fold (\<lambda>j xs. xs[j := f (xs ! j)]) [0..<n] xs = map (\<lambda>j. f (xs ! j)) [0..<n] @ drop n xs"
    using n by (intro fold_update_map) simp
  also have "\<dots> = map f (map ((!) xs) [0..<length xs])"
    using n by simp
  also have "\<dots> = map f xs"
    by (simp only: map_nth)
  finally show ?thesis .
qed

lemma add_summary_length [simp]: "length (fst (add_summary node point dof (g, s))) = length g"
proof -
  have "length (fold (\<lambda>d g. g[d := h d g]) ds g) = length g" for h :: "nat \<Rightarrow> real list \<Rightarrow> real" and ds
    by (induction ds arbitrary: g) simp_all
  then show ?thesis
    by (simp add: add_summary_def Let_def)
qed

lemma estimate_negative_gradient_length:
  "length (fst (estimate_negative_gradient is_duplicate point theta dof node st)) = length (fst st)"
proof (induction is_duplicate point theta dof node st rule: estimate_negative_gradient.induct)
  case (1 is_duplicate point theta dof nd np leaf len com cs st)
  let ?node = "Node nd np leaf len com cs"
  show ?case
  proof (cases "np = 0 \<or> leaf \<and> is_duplicate ?node point")
    case True
    then show ?thesis by auto
  next
    case skip: False
    show ?thesis
    proof (cases "use_summary ?node point theta")
      case True
      then show ?thesis
        using skip by (cases st) simp
    next
      case False
      have "length (fst (fold (estimate_negative_gradient is_duplicate point theta dof) xs s)) = length (fst s)"
        if "set xs \<subseteq> set (take (2 ^ nd) cs)" for xs s
        using that
      proof (induction xs arbitrary: s)
        case Nil
        then show ?case by simp
      next
        case (Cons x xs)
        then show ?case
          using "1.IH" [OF skip False, of x] by simp
      qed
      then show ?thesis
        using skip False by simp
    qed
  qed
qed

lemma node_distance_eq: "node_distance node point = EPSILON + squared_distance node point"
proof -
  have "fold (\<lambda>d distance. distance + h d) ds a = a + (\<Sum>d\<leftarrow>ds. h d)" for h :: "nat \<Rightarrow> real" and ds a
    by (induction ds arbitrary: a) (simp_all add: algebra_simps)
  then show ?thesis
    by (simp add: node_distance_def squared_distance_def)
qed

lemma use_summary_eq:
  "use_summary node point theta
     \<longleftrightarrow> criterion (is_leaf node) (length_node node) (EPSILON + squared_distance node point) theta"
  by (simp add: use_summary_def criterion_def node_distance_eq)

text \<open>
  C4, in the form that holds of the code. For every query point, node and
  \<open>theta\<close>: an empty node, and a leaf that duplicates the query point, leave the
  gradient and \<open>sum_Q\<close> as they are. Any other node is used as a summary exactly
  when it is a leaf or \<open>s / sqrt r < theta\<close>, where \<open>s\<close> is the side
  length of the node and \<open>r\<close> is \<open>EPSILON\<close> plus the squared
  Euclidean distance between the query point and the center of mass of the node; otherwise
  its first \<open>2 ^ n_dims\<close> children are visited in turn.
\<close>

theorem estimate_negative_gradient_cases:
  "(num_points node = 0 \<or> is_leaf node \<and> is_duplicate node point
      \<longrightarrow> estimate_negative_gradient is_duplicate point theta dof node st = st)
   \<and> (\<not> (num_points node = 0 \<or> is_leaf node \<and> is_duplicate node point)
      \<longrightarrow> estimate_negative_gradient is_duplicate point theta dof node st
          = (if criterion (is_leaf node) (length_node node) (EPSILON + squared_distance node point) theta
             then add_summary node point dof st
             else fold (estimate_negative_gradient is_duplicate point theta dof)
                    (take (2 ^ n_dims node) (children node)) st))"
  by (cases node) (auto simp: use_summary_eq)

lemma sqrt_le_2: "sqrt (EPSILON + 1 / 16) \<le> 2"
proof -
  have "EPSILON + 1 / 16 \<le> 2\<^sup>2"
    using EPSILON_le_half by simp
  then show ?thesis
    by (rule real_le_lsqrt [rotated 1]) (use EPSILON_pos in simp_all)
qed

theorem estimate_negative_gradient_cases_witness:
  "estimate_negative_gradient same_place [3 / 4] (1 / 2) 1
     (Node 1 2 False 1 [1] [Node 1 1 True (1 / 2) [3 / 4] [], Node 1 1 True (1 / 2) [5 / 4] []]) ([0], 0)
   = add_summary (Node 1 1 True (1 / 2) [5 / 4] []) [3 / 4] 1 ([0], 0)"
proof -
  let ?a = "Node 1 1 True (1 / 2) [3 / 4] []"
  let ?b = "Node 1 1 True (1 / 2) [5 / 4] []"
  let ?r = "Node 1 2 False 1 [1] [?a, ?b]"
  have "0 < sqrt (EPSILON + 1 / 16)"
    using EPSILON_pos by (simp add: add_pos_pos)
  then have "\<not> 1 / sqrt (EPSILON + 1 / 16) < 1 / 2"
    using sqrt_le_2 by (simp add: field_simps)
  then have r: "\<not> criterion (is_leaf ?r) (length_node ?r) (EPSILON + squared_distance ?r [3 / 4]) (1 / 2)"
    by (simp add: criterion_def squared_distance_def power2_eq_square)
  have "estimate_negative_gradient same_place [3 / 4] (1 / 2) 1 ?r ([0], 0)
      = fold (estimate_negative_gradient same_place [3 / 4] (1 / 2) 1) (take (2 ^ n_dims ?r) (children ?r)) ([0], 0)"
    using estimate_negative_gradient_cases [of ?r same_place "[3 / 4]" "1 / 2" 1 "([0], 0)"] r
    by (simp del: estimate_negative_gradient.simps)
  also have "\<dots> = estimate_negative_gradient same_place [3 / 4] (1 / 2) 1 ?b
                     (estimate_negative_gradient same_place [3 / 4] (1 / 2) 1 ?a ([0], 0))"
    by (simp del: estimate_negative_gradient.simps add: numeral_2_eq_2)
  also have "estimate_negative_gradient same_place [3 / 4] (1 / 2) 1 ?a ([0], 0) = ([0], 0)"
    using estimate_negative_gradient_cases [of ?a same_place "[3 / 4]" "1 / 2" 1 "([0], 0)"]
    by (simp del: estimate_negative_gradient.simps add: same_place_def)
  also have "estimate_negative_gradient same_place [3 / 4] (1 / 2) 1 ?b ([0], 0)
      = add_summary ?b [3 / 4] 1 ([0], 0)"
    using estimate_negative_gradient_cases [of ?b same_place "[3 / 4]" "1 / 2" 1 "([0], 0)"]
    by (simp del: estimate_negative_gradient.simps add: same_place_def criterion_def)
  finally show ?thesis .
qed

lemma below_own_sqrt:
  fixes a e :: real
  assumes "0 < e" and "0 < a"
  shows "a / sqrt (e + a\<^sup>2) < 1"
proof -
  have "sqrt (a\<^sup>2) < sqrt (e + a\<^sup>2)"
    using assms by (intro real_sqrt_less_mono) simp
  then have "a < sqrt (e + a\<^sup>2)"
    using assms by simp
  moreover from this have "0 < sqrt (e + a\<^sup>2)"
    using assms by linarith
  ultimately show ?thesis
    by (simp only: divide_less_eq_1_pos)
qed

lemma inv_sqrt_2eps: "1 / 2 ^ 26 / sqrt (EPSILON + (1 / 2 ^ 26)\<^sup>2) < 1"
  by (rule below_own_sqrt) (simp_all add: EPSILON_pos)

lemma inv_sqrt_above:
  fixes a e :: real
  assumes "0 < e" and "0 < a"
  shows "1 / sqrt (e + a\<^sup>2) \<le> 1 / a"
proof -
  have "a\<^sup>2 \<le> e + a\<^sup>2"
    using assms by simp
  then have le: "a \<le> sqrt (e + a\<^sup>2)"
    by (rule real_le_rsqrt)
  then have "0 < sqrt (e + a\<^sup>2)"
    using assms by linarith
  then have "0 < sqrt (e + a\<^sup>2) * a"
    using assms by (intro mult_pos_pos)
  then show ?thesis
    using le by (intro divide_left_mono) simp_all
qed

lemma inv_sqrt_16: "1 / sqrt (EPSILON + 16) < 2 / 5"
proof -
  have "1 / sqrt (EPSILON + 4\<^sup>2) \<le> 1 / 4"
    by (rule inv_sqrt_above) (simp_all add: EPSILON_pos)
  then show ?thesis
    by simp
qed

text \<open>
  C4 as it is stated takes \<open>r\<close> to be the distance of the node from the query point.  With
  the squared distance for \<open>r\<close>: a cell of side \<open>2^-26\<close> whose center of mass is \<open>2^-26\<close> away
  from the query point is used as a summary at \<open>theta = 1\<close>, although \<open>s / sqrt r = 1\<close> is not
  below \<open>theta\<close>; the \<open>EPSILON\<close> that the code starts the sum with decides.  With the
  Euclidean distance for \<open>r\<close>: a cell of side \<open>1\<close> at distance \<open>4\<close> is used as a summary at
  \<open>theta = 2/5\<close>, although \<open>s / sqrt r = 1/2\<close>.
\<close>

theorem criterion_is_not_on_distance:
  "estimate_negative_gradient same_place [0] 1 1
      (Node 1 2 False (1 / 2 ^ 26) [1 / 2 ^ 26]
         [Node 1 1 True (1 / 2 ^ 27) [3 / 2 ^ 28] [], Node 1 1 True (1 / 2 ^ 27) [5 / 2 ^ 28] []]) ([0], 0)
     = add_summary
      (Node 1 2 False (1 / 2 ^ 26) [1 / 2 ^ 26]
         [Node 1 1 True (1 / 2 ^ 27) [3 / 2 ^ 28] [], Node 1 1 True (1 / 2 ^ 27) [5 / 2 ^ 28] []]) [0] 1 ([0], 0)
   \<and> \<not> criterion False (1 / 2 ^ 26)
        (squared_distance
          (Node 1 2 False (1 / 2 ^ 26) [1 / 2 ^ 26]
            [Node 1 1 True (1 / 2 ^ 27) [3 / 2 ^ 28] [], Node 1 1 True (1 / 2 ^ 27) [5 / 2 ^ 28] []]) [0]) 1
   \<and> estimate_negative_gradient same_place [0] (2 / 5) 1
      (Node 1 2 False 1 [4] [Node 1 1 True (1 / 2) [15 / 4] [], Node 1 1 True (1 / 2) [17 / 4] []]) ([0], 0)
     = add_summary
      (Node 1 2 False 1 [4] [Node 1 1 True (1 / 2) [15 / 4] [], Node 1 1 True (1 / 2) [17 / 4] []]) [0] 1 ([0], 0)
   \<and> \<not> criterion False 1
        (sqrt (squared_distance
          (Node 1 2 False 1 [4] [Node 1 1 True (1 / 2) [15 / 4] [], Node 1 1 True (1 / 2) [17 / 4] []]) [0])) (2 / 5)"
proof -
  let ?X = "Node 1 2 False (1 / 2 ^ 26) [1 / 2 ^ 26]
         [Node 1 1 True (1 / 2 ^ 27) [3 / 2 ^ 28] [], Node 1 1 True (1 / 2 ^ 27) [5 / 2 ^ 28] []]"
  let ?Y = "Node 1 2 False 1 [4] [Node 1 1 True (1 / 2) [15 / 4] [], Node 1 1 True (1 / 2) [17 / 4] []]"
  have dX: "squared_distance ?X [0] = (1 / 2 ^ 26)\<^sup>2"
    by (simp add: squared_distance_def)
  have dY: "squared_distance ?Y [0] = 16"
    by (simp add: squared_distance_def)
  have "use_summary ?X [0] 1"
    using inv_sqrt_2eps by (simp only: use_summary_def node_distance_eq dX node.sel) simp
  then have a: "estimate_negative_gradient same_place [0] 1 1 ?X ([0], 0) = add_summary ?X [0] 1 ([0], 0)"
    by simp
  have b: "\<not> criterion False (1 / 2 ^ 26) (squared_distance ?X [0]) 1"
    by (simp only: dX criterion_def) simp
  have "use_summary ?Y [0] (2 / 5)"
    using inv_sqrt_16 by (simp only: use_summary_def node_distance_eq dY node.sel) simp
  then have c: "estimate_negative_gradient same_place [0] (2 / 5) 1 ?Y ([0], 0) = add_summary ?Y [0] 1 ([0], 0)"
    by simp
  have "sqrt (sqrt 16) = sqrt (sqrt (4\<^sup>2))"
    by simp
  also have "\<dots> = sqrt (2\<^sup>2)"
    by (simp only: real_sqrt_abs) simp
  finally have "sqrt (sqrt 16) = 2"
    by simp
  then have d: "\<not> criterion False 1 (sqrt (squared_distance ?Y [0])) (2 / 5)"
    by (simp only: dY criterion_def) simp
  show ?thesis
    using a b c d by blast
qed

subsection \<open>The similarity of two points\<close>

lemma difference_loop_upto:
  fixes y_i y_j diff0 :: "real list"
  assumes "m \<le> length diff0"
  shows "fold (\<lambda>d (diff, d_ij). let diff = diff[d := y_i ! d - y_j ! d] in (diff, d_ij + (diff ! d)\<^sup>2))
           [0..<m] (diff0, a)
         = (map (\<lambda>d. y_i ! d - y_j ! d) [0..<m] @ drop m diff0,
            a + (\<Sum>d\<leftarrow>[0..<m]. (y_i ! d - y_j ! d)\<^sup>2))"
  using assms
proof (induction m)
  case 0
  then show ?case by simp
next
  case (Suc m)
  let ?g = "\<lambda>d. y_i ! d - y_j ! d"
  have "(map ?g [0..<m] @ drop m diff0)[m := ?g m] = map ?g [0..<Suc m] @ drop (Suc m) diff0"
    using Suc.prems by (simp add: list_update_append Cons_nth_drop_Suc [symmetric])
  moreover have "(map ?g [0..<Suc m] @ drop (Suc m) diff0) ! m = ?g m"
    by (simp add: nth_append)
  ultimately show ?case
    using Suc by (simp add: Let_def)
qed

lemma difference_loop_eq:
  assumes "length diff0 = nd"
  shows "difference_loop y_i y_j nd diff0
         = (map (\<lambda>d. y_i ! d - y_j ! d) [0..<nd], \<Sum>d\<leftarrow>[0..<nd]. (y_i ! d - y_j ! d)\<^sup>2)"
  using assms by (simp add: difference_loop_def difference_loop_upto)

text \<open>
  C1, in the form that holds of the code. For \<open>dof = 1\<close> and every pair of
  points, the positive-gradient engine computes \<open>q_ij = dof / (dof + d)\<close> with
  \<open>d\<close> the squared distance between the two points, and the Barnes-Hut engine
  computes \<open>q_ij = dof / (dof + (EPSILON + d))\<close> with \<open>d\<close> the
  squared distance between the query point and the center of mass of the node.
\<close>

theorem student_t_classical:
  assumes "dof = 1" and "length diff0 = nd"
  shows "student_t dof (snd (difference_loop y_i y_j nd diff0))
           = dof / (dof + (\<Sum>d\<leftarrow>[0..<nd]. (y_i ! d - y_j ! d)\<^sup>2))
         \<and> student_t dof (node_distance node point)
           = dof / (dof + (EPSILON + squared_distance node point))"
  using assms by (simp add: student_t_def difference_loop_eq node_distance_eq)

theorem student_t_classical_witness:
  "student_t 1 (snd (difference_loop [0] [1] 1 [7])) = 1 / 2
   \<and> student_t 1 (node_distance (Node 1 1 True (1 / 2) [1 / 2] []) [0]) = 1 / (1 + (EPSILON + 1 / 4))"
  using student_t_classical [of 1 "[7]" 1 "[0]" "[1]" "Node 1 1 True (1 / 2) [1 / 2] []" "[0]"]
  by (simp add: squared_distance_def power2_eq_square)

text \<open>
  C1 as it is stated fails twice.  For \<open>dof = 3\<close> and two points at distance \<open>1\<close> the
  positive-gradient engine computes \<open>(3/4)^4 / 2 = 81/512\<close>, since \<^verbatim>\<open>q_ij ** (dof + 1) / 2\<close>
  divides the power by two; the power \<open>(dof + 1) / 2\<close> of \<open>3/4\<close> is \<open>9/16\<close>.  For \<open>dof = 1\<close>
  and a leaf at squared distance \<open>1/4\<close> the Barnes-Hut engine computes
  \<open>1 / (1 + (EPSILON + 1/4))\<close>, not \<open>1 / (1 + 1/4)\<close>.
\<close>

theorem student_t_not_the_stated_power:
  "student_t 3 (snd (difference_loop [0] [1] 1 [7])) = 81 / 512
   \<and> similarity 3 (\<Sum>d\<leftarrow>[0..<1]. ([0] ! d - [1] ! d)\<^sup>2) = 9 / 16
   \<and> student_t 1 (node_distance (Node 1 1 True (1 / 2) [1 / 2] []) [0]) = 1 / (1 + (EPSILON + 1 / 4))
   \<and> similarity 1 (squared_distance (Node 1 1 True (1 / 2) [1 / 2] []) [0]) = 1 / (1 + 1 / 4)
   \<and> 1 / (1 + (EPSILON + 1 / 4)) \<noteq> (1 / (1 + 1 / 4) :: real)"
proof -
  have d: "snd (difference_loop [0] [1] 1 [7]) = 1"
    by (simp add: difference_loop_eq)
  have "(3 / 4 :: real) powr 4 = (3 / 4) ^ 4"
    by (rule powr_numeral) simp
  then have p4: "(3 / 4 :: real) powr 4 = 81 / 256"
    by (simp add: power_divide)
  have "(3 / 4 :: real) powr 2 = (3 / 4) ^ 2"
    by (rule powr_numeral) simp
  then have p2: "(3 / 4 :: real) powr 2 = 9 / 16"
    by (simp add: power_divide)
  have a: "student_t 3 (snd (difference_loop [0] [1] 1 [7])) = 81 / 512"
    by (simp only: d student_t_def Let_def) (simp add: p4)
  have b: "similarity 3 (\<Sum>d\<leftarrow>[0..<1]. ([0] ! d - [1] ! d)\<^sup>2) = 9 / 16"
    by (simp add: similarity_def p2 power2_eq_square)
  have q: "squared_distance (Node 1 1 True (1 / 2) [1 / 2] []) [0] = 1 / 4"
    by (simp add: squared_distance_def power2_eq_square)
  have c: "student_t 1 (node_distance (Node 1 1 True (1 / 2) [1 / 2] []) [0]) = 1 / (1 + (EPSILON + 1 / 4))"
    by (simp only: node_distance_eq q student_t_def Let_def) simp
  have e: "similarity 1 (squared_distance (Node 1 1 True (1 / 2) [1 / 2] []) [0]) = 1 / (1 + 1 / 4)"
    by (simp only: q similarity_def) simp
  have f: "1 / (1 + (EPSILON + 1 / 4)) \<noteq> (1 / (1 + 1 / 4) :: real)"
    using EPSILON_pos by (simp add: field_simps)
  show ?thesis
    using a b c e f by blast
qed

subsection \<open>Normalisation of the repulsive forces\<close>

lemma fold_add_nth:
  fixes xs :: "real list"
  shows "n \<le> length xs \<Longrightarrow> fold (\<lambda>i acc. acc + xs ! i) [0..<n] a = a + sum_list (take n xs)"
  by (induction n) (simp_all add: take_Suc_conv_app_nth)

lemma shape1_nth0: "0 < length a \<Longrightarrow> shape1 a = length (a ! 0)"
  by (cases a) (simp_all add: shape1_def)

lemma normalize_row:
  assumes "i < length g" and "m \<le> length (g ! i)"
  shows "fold (\<lambda>j g. g[i := (g ! i)[j := f (g ! i ! j)]]) [0..<m] g
         = g[i := map (\<lambda>j. f (g ! i ! j)) [0..<m] @ drop m (g ! i)]"
  using assms(2)
proof (induction m)
  case 0
  then show ?case by simp
next
  case (Suc m)
  let ?h = "\<lambda>j. f (g ! i ! j)"
  have "(map ?h [0..<m] @ drop m (g ! i))[m := f ((map ?h [0..<m] @ drop m (g ! i)) ! m)]
      = map ?h [0..<Suc m] @ drop (Suc m) (g ! i)"
    using Suc.prems
    by (simp add: list_update_append nth_append Cons_nth_drop_Suc [symmetric])
  then show ?case
    using Suc assms(1) by simp
qed

lemma normalize_gradient_eq:
  assumes "\<forall>row\<in>set gradient. length row = shape1 gradient"
  shows "normalize_gradient sum_Q gradient = map (map (\<lambda>x. x / (sum_Q + EPSILON))) gradient"
proof -
  let ?f = "\<lambda>x. x / (sum_Q + EPSILON)"
  let ?n = "shape1 gradient"
  have row: "fold (\<lambda>j g. g[i := (g ! i)[j := ?f (g ! i ! j)]]) [0..<?n] g = g[i := map ?f (g ! i)]"
    if "i < length g" and "length (g ! i) = ?n" for i and g :: "real list list"
  proof -
    have "fold (\<lambda>j g. g[i := (g ! i)[j := ?f (g ! i ! j)]]) [0..<?n] g
        = g[i := map (\<lambda>j. ?f (g ! i ! j)) [0..<?n] @ drop ?n (g ! i)]"
      using that by (intro normalize_row) simp_all
    also have "map (\<lambda>j. ?f (g ! i ! j)) [0..<?n] = map ?f (map ((!) (g ! i)) [0..<length (g ! i)])"
      using that by simp
    also have "\<dots> = map ?f (g ! i)"
      by (simp only: map_nth)
    finally show ?thesis
      using that by simp
  qed
  have "m \<le> length gradient \<Longrightarrow>
      fold (\<lambda>i g. fold (\<lambda>j g. g[i := (g ! i)[j := ?f (g ! i ! j)]]) [0..<?n] g) [0..<m] gradient
        = map (map ?f) (take m gradient) @ drop m gradient" for m
  proof (induction m)
    case 0
    then show ?case by simp
  next
    case (Suc m)
    let ?g = "map (map ?f) (take m gradient) @ drop m gradient"
    have len: "m < length ?g"
      using Suc.prems by simp
    have at: "?g ! m = gradient ! m"
      using Suc.prems by (simp add: nth_append)
    have "length (gradient ! m) = ?n"
      using assms Suc.prems by simp
    then have "fold (\<lambda>j g. g[m := (g ! m)[j := ?f (g ! m ! j)]]) [0..<?n] ?g = ?g[m := map ?f (?g ! m)]"
      using len at by (intro row) simp_all
    also have "\<dots> = ?g[m := map ?f (gradient ! m)]"
      by (simp only: at)
    also have "\<dots> = map (map ?f) (take (Suc m) gradient) @ drop (Suc m) gradient"
      using Suc.prems
      by (simp add: list_update_append take_Suc_conv_app_nth Cons_nth_drop_Suc [symmetric])
    finally show ?case
      using Suc by simp
  qed
  from this [of "length gradient"] show ?thesis
    by (simp add: normalize_gradient_def)
qed

lemma prange_on_slot_eq:
  assumes "valid_chunks t n chunks" and "length A = n" and "length B = n"
  shows "prange chunks (\<lambda>i. on_slot (F i) i) (A, B)
         = (map (\<lambda>i. fst (F i (A ! i, B ! i))) [0..<n], map (\<lambda>i. snd (F i (A ! i, B ! i))) [0..<n])"
proof -
  let ?r = "prange chunks (\<lambda>i. on_slot (F i) i) (A, B)"
  have len: "length (fst ?r) = n" "length (snd ?r) = n"
    using assms by (simp_all add: prange_on_slot [OF assms(1)])
  have "fst ?r = map (\<lambda>i. fst (F i (A ! i, B ! i))) [0..<n]"
    using len assms by (intro nth_equalityI) (simp_all add: prange_on_slot_nth)
  moreover have "snd ?r = map (\<lambda>i. snd (F i (A ! i, B ! i))) [0..<n]"
    using len assms by (intro nth_equalityI) (simp_all add: prange_on_slot_nth)
  ultimately show ?thesis
    by (simp add: prod_eq_iff)
qed

text \<open>
  C5.  For every embedding, \<^verbatim>\<open>compute_negative_gradients_bh\<close> keeps one partial sum per
  point in an array with one slot per point: slot \<open>i\<close> is the \<open>sum_Q\<close> that
  \<^verbatim>\<open>estimate_negative_gradient\<close> accumulates for point \<open>i\<close> from zero.  \<open>Z\<close> is the sum of
  all slots, every entry of the gradient (row \<open>i\<close> as left by the walk for point \<open>i\<close>) is
  divided by \<open>Z + EPSILON\<close>, and \<open>Z\<close> is returned.  This holds for every assignment of
  the points to the threads.
\<close>

theorem negative_gradients_bh_normalised:
  assumes "valid_chunks (nat (clamp_threads num_threads)) (length embedding)
             (sched (nat (clamp_threads num_threads)) (length embedding))"
    and "length gradient = length embedding"
    and "\<forall>row\<in>set gradient. length row = shape1 gradient"
    and "sum_Qi = map (\<lambda>i. snd (estimate_negative_gradient is_duplicate (embedding ! i) theta dof tree_root
                               (gradient ! i, 0))) [0..<length embedding]"
    and "Z = sum_list sum_Qi"
  shows "snd (prange (sched (nat (clamp_threads num_threads)) (length embedding))
                (bh_body is_duplicate tree_root embedding theta dof)
                (gradient, replicate (length embedding) 0)) = sum_Qi
       \<and> length sum_Qi = length embedding
       \<and> compute_negative_gradients_bh sched is_duplicate tree_root embedding gradient theta dof num_threads
           = (Z, map (\<lambda>i. map (\<lambda>x. x / (Z + EPSILON))
                        (fst (estimate_negative_gradient is_duplicate (embedding ! i) theta dof tree_root
                               (gradient ! i, 0))))
                  [0..<length embedding])"
proof -
  let ?n = "length embedding"
  let ?F = "\<lambda>i. estimate_negative_gradient is_duplicate (embedding ! i) theta dof tree_root"
  let ?G = "map (\<lambda>i. fst (?F i (gradient ! i, 0))) [0..<?n]"
  have par: "prange (sched (nat (clamp_threads num_threads)) ?n)
               (bh_body is_duplicate tree_root embedding theta dof) (gradient, replicate ?n 0)
             = (?G, sum_Qi)"
  proof -
    have "bh_body is_duplicate tree_root embedding theta dof = (\<lambda>i. on_slot (?F i) i)"
      by (simp add: bh_body_def fun_eq_iff)
    moreover have "prange (sched (nat (clamp_threads num_threads)) ?n) (\<lambda>i. on_slot (?F i) i)
        (gradient, replicate ?n 0)
        = (map (\<lambda>i. fst (?F i (gradient ! i, replicate ?n 0 ! i))) [0..<?n],
           map (\<lambda>i. snd (?F i (gradient ! i, replicate ?n 0 ! i))) [0..<?n])"
      using assms(1,2) by (intro prange_on_slot_eq) simp_all
    ultimately show ?thesis
      using assms(4) by simp
  qed
  have sum: "fold (\<lambda>i sum_Q. sum_Q + sum_Qi ! i) [0..<?n] 0 = Z"
    using assms(4,5) by (simp add: fold_add_nth)
  have rows: "\<forall>row\<in>set ?G. length row = shape1 ?G"
  proof
    fix row
    assume "row \<in> set ?G"
    then obtain i where i: "i < ?n" "row = fst (?F i (gradient ! i, 0))"
      by auto
    then have "length row = shape1 gradient"
      using assms(2,3) by (simp add: estimate_negative_gradient_length)
    moreover have "shape1 ?G = shape1 gradient"
    proof -
      have "0 < ?n"
        using i(1) by linarith
      then have "shape1 ?G = length (?G ! 0)" "shape1 gradient = length (gradient ! 0)"
        using assms(2) by (simp_all add: shape1_nth0)
      moreover have "?G ! 0 = fst (?F 0 (gradient ! 0, 0))"
        using \<open>0 < ?n\<close> by simp
      ultimately show ?thesis
        by (simp add: estimate_negative_gradient_length)
    qed
    ultimately show "length row = shape1 ?G"
      by simp
  qed
  have "compute_negative_gradients_bh sched is_duplicate tree_root embedding gradient theta dof num_threads
      = (Z, normalize_gradient Z ?G)"
    by (simp add: compute_negative_gradients_bh_def Let_def par sum)
  also have "normalize_gradient Z ?G = map (map (\<lambda>x. x / (Z + EPSILON))) ?G"
    using rows by (rule normalize_gradient_eq)
  finally show ?thesis
    using assms(4) by (simp add: comp_def par)
qed

lemma two_leaves_left:
  "estimate_negative_gradient same_place [3 / 4] (1 / 2) 1
     (Node 1 2 False 1 [1] [Node 1 1 True (1 / 2) [3 / 4] [], Node 1 1 True (1 / 2) [5 / 4] []]) st
   = add_summary (Node 1 1 True (1 / 2) [5 / 4] []) [3 / 4] 1 st"
proof -
  have "0 < sqrt (EPSILON + 1 / 16)"
    using EPSILON_pos by (simp add: add_pos_pos)
  then have "\<not> 1 / sqrt (EPSILON + 1 / 16) < 1 / 2"
    using sqrt_le_2 by (simp add: field_simps)
  then have "\<not> use_summary (Node 1 2 False 1 [1]
       [Node 1 1 True (1 / 2) [3 / 4] [], Node 1 1 True (1 / 2) [5 / 4] []]) [3 / 4] (1 / 2)"
    by (simp add: use_summary_def node_distance_eq squared_distance_def power2_eq_square)
  then show ?thesis
    by (simp add: same_place_def use_summary_def numeral_2_eq_2)
qed

lemma two_leaves_right:
  "estimate_negative_gradient same_place [5 / 4] (1 / 2) 1
     (Node 1 2 False 1 [1] [Node 1 1 True (1 / 2) [3 / 4] [], Node 1 1 True (1 / 2) [5 / 4] []]) st
   = add_summary (Node 1 1 True (1 / 2) [3 / 4] []) [5 / 4] 1 st"
proof -
  have "0 < sqrt (EPSILON + 1 / 16)"
    using EPSILON_pos by (simp add: add_pos_pos)
  then have "\<not> 1 / sqrt (EPSILON + 1 / 16) < 1 / 2"
    using sqrt_le_2 by (simp add: field_simps)
  then have "\<not> use_summary (Node 1 2 False 1 [1]
       [Node 1 1 True (1 / 2) [3 / 4] [], Node 1 1 True (1 / 2) [5 / 4] []]) [5 / 4] (1 / 2)"
    by (simp add: use_summary_def node_distance_eq squared_distance_def power2_eq_square)
  then show ?thesis
    by (simp add: same_place_def use_summary_def numeral_2_eq_2)
qed

lemma add_summary_left:
  "add_summary (Node 1 1 True (1 / 2) [5 / 4] []) [3 / 4] 1 ([0], 0)
   = ([(1 / (1 + (EPSILON + 1 / 4)))\<^sup>2 / 2], 1 / (1 + (EPSILON + 1 / 4)))"
  by (simp add: add_summary_def student_t_def node_distance_eq squared_distance_def Let_def power2_eq_square)

lemma add_summary_right:
  "add_summary (Node 1 1 True (1 / 2) [3 / 4] []) [5 / 4] 1 ([0], 0)
   = ([- ((1 / (1 + (EPSILON + 1 / 4)))\<^sup>2 / 2)], 1 / (1 + (EPSILON + 1 / 4)))"
  by (simp add: add_summary_def student_t_def node_distance_eq squared_distance_def Let_def power2_eq_square)

theorem negative_gradients_bh_normalised_witness:
  "compute_negative_gradients_bh serial same_place
     (Node 1 2 False 1 [1] [Node 1 1 True (1 / 2) [3 / 4] [], Node 1 1 True (1 / 2) [5 / 4] []])
     [ [3 / 4], [5 / 4] ] [ [0], [0] ] (1 / 2) 1 2
   = (1 / (1 + (EPSILON + 1 / 4)) + 1 / (1 + (EPSILON + 1 / 4)),
      [ [(1 / (1 + (EPSILON + 1 / 4)))\<^sup>2 / 2
           / (1 / (1 + (EPSILON + 1 / 4)) + 1 / (1 + (EPSILON + 1 / 4)) + EPSILON)],
        [- ((1 / (1 + (EPSILON + 1 / 4)))\<^sup>2 / 2)
           / (1 / (1 + (EPSILON + 1 / 4)) + 1 / (1 + (EPSILON + 1 / 4)) + EPSILON)] ])"
proof -
  let ?T = "Node 1 2 False 1 [1] [Node 1 1 True (1 / 2) [3 / 4] [], Node 1 1 True (1 / 2) [5 / 4] []]"
  let ?e = "[ [3 / 4], [5 / 4 :: real] ]"
  let ?g = "[ [0], [0 :: real] ]"
  let ?q = "1 / (1 + (EPSILON + 1 / 4))"
  have v: "valid_chunks (nat (clamp_threads 2)) (length ?e) (serial (nat (clamp_threads 2)) (length ?e))"
    by (simp add: valid_chunks_serial clamp_threads_def)
  have r: "\<forall>row\<in>set ?g. length row = shape1 ?g"
    by (simp add: shape1_def)
  have up: "[0..<length ?e] = [0, 1]"
    by (simp add: upt_rec)
  have L: "estimate_negative_gradient same_place [3 / 4] (1 / 2) 1 ?T ([0], 0)
      = ([?q\<^sup>2 / 2], ?q)"
    by (simp only: two_leaves_left add_summary_left)
  have R: "estimate_negative_gradient same_place [5 / 4] (1 / 2) 1 ?T ([0], 0)
      = ([- (?q\<^sup>2 / 2)], ?q)"
    by (simp only: two_leaves_right add_summary_right)
  have q: "map (\<lambda>i. snd (estimate_negative_gradient same_place (?e ! i) (1 / 2) 1 ?T (?g ! i, 0))) [0..<length ?e]
      = [?q, ?q]"
    by (simp only: up) (simp add: L R del: estimate_negative_gradient.simps One_nat_def)
  have z: "?q + ?q = sum_list [?q, ?q]"
    by simp
  note T = negative_gradients_bh_normalised [where sched = serial and num_threads = 2
      and embedding = ?e and gradient = ?g and is_duplicate = same_place and theta = "1 / 2"
      and dof = 1 and tree_root = ?T and sum_Qi = "[?q, ?q]" and Z = "?q + ?q",
      OF v _ r q [symmetric] z, THEN conjunct2, THEN conjunct2]
  have len: "length ?g = length ?e"
    by simp
  show ?thesis
    by (simp only: T [OF len] up) (simp add: L R del: estimate_negative_gradient.simps One_nat_def)
qed

subsection \<open>The attractive forces do not depend on the threads\<close>

lemma fold_row_update:
  "fold (\<lambda>d g. g[i := (g ! i)[d := h d (g ! i)]]) ds g = g[i := fold (\<lambda>d r. r[d := h d r]) ds (g ! i)]"
proof (induction ds arbitrary: g)
  case Nil
  then show ?case by simp
next
  case (Cons d ds)
  show ?case
  proof (cases "i < length g")
    case True
    then show ?thesis
      by (simp add: Cons)
  next
    case False
    then show ?thesis
      by (simp add: Cons list_update_beyond)
  qed
qed

lemma fold_row_cong:
  "(\<And>d r. d \<in> set ds \<Longrightarrow> f d r = g d r) \<Longrightarrow> fold f ds r = fold g ds r"
  by (induction ds arbitrary: r) simp_all

lemma neighbor_body_eq:
  assumes "length (diff w) = nd"
  shows "neighbor_body indices P_data embedding reference_embedding dof nd flag i k (g, w)
     = (g[i := attract_entry indices P_data embedding reference_embedding dof nd i k (g ! i)],
        \<lparr>diff = map (\<lambda>d. embedding ! i ! d - reference_embedding ! (indices ! k) ! d) [0..<nd],
         sum_P = sum_P w + (if flag then P_data ! k else 0),
         kl_divergence = kl_divergence w
           + (if flag then P_data ! k * ln (P_data ! k
                / (entry_q indices embedding reference_embedding dof nd i k + EPSILON)) else 0)\<rparr>)"
proof -
  let ?D = "map (\<lambda>d. embedding ! i ! d - reference_embedding ! (indices ! k) ! d) [0..<nd]"
  let ?q = "entry_q indices embedding reference_embedding dof nd i k"
  have "fold (\<lambda>d g. g[i := (g ! i)[d := g ! i ! d + ?q * P_data ! k * ?D ! d]]) [0..<nd] g
      = g[i := fold (\<lambda>d r. r[d := r ! d + ?q * P_data ! k * ?D ! d]) [0..<nd] (g ! i)]"
    by (rule fold_row_update)
  also have "fold (\<lambda>d r. r[d := r ! d + ?q * P_data ! k * ?D ! d]) [0..<nd] (g ! i)
      = attract_entry indices P_data embedding reference_embedding dof nd i k (g ! i)"
    unfolding attract_entry_def by (rule fold_row_cong) simp
  finally show ?thesis
    using assms
    by (simp add: neighbor_body_def difference_loop_eq entry_q_def Let_def)
qed


lemma fold_neighbor_body:
  assumes "length (diff w) = nd" and "i < length g"
  shows "fst (fold (neighbor_body indices P_data embedding reference_embedding dof nd flag i) ks (g, w))
           = g[i := fold (attract_entry indices P_data embedding reference_embedding dof nd i) ks (g ! i)]
       \<and> length (diff (snd (fold (neighbor_body indices P_data embedding reference_embedding dof nd flag i) ks (g, w)))) = nd
       \<and> sum_P (snd (fold (neighbor_body indices P_data embedding reference_embedding dof nd flag i) ks (g, w)))
           = sum_P w + (if flag then (\<Sum>k\<leftarrow>ks. P_data ! k) else 0)
       \<and> kl_divergence (snd (fold (neighbor_body indices P_data embedding reference_embedding dof nd flag i) ks (g, w)))
           = kl_divergence w + (if flag then (\<Sum>k\<leftarrow>ks. P_data ! k * ln (P_data ! k
                / (entry_q indices embedding reference_embedding dof nd i k + EPSILON))) else 0)"
  using assms
proof (induction ks arbitrary: g w)
  case Nil
  then show ?case by simp
next
  case (Cons k ks)
  let ?g1 = "g[i := attract_entry indices P_data embedding reference_embedding dof nd i k (g ! i)]"
  let ?w1 = "\<lparr>diff = map (\<lambda>d. embedding ! i ! d - reference_embedding ! (indices ! k) ! d) [0..<nd],
         sum_P = sum_P w + (if flag then P_data ! k else 0),
         kl_divergence = kl_divergence w
           + (if flag then P_data ! k * ln (P_data ! k
                / (entry_q indices embedding reference_embedding dof nd i k + EPSILON)) else 0)\<rparr>"
  have step: "neighbor_body indices P_data embedding reference_embedding dof nd flag i k (g, w) = (?g1, ?w1)"
    using Cons.prems(1) by (rule neighbor_body_eq)
  have "length (diff ?w1) = nd" "i < length ?g1"
    using Cons.prems by simp_all
  note IH = Cons.IH [OF this]
  show ?case
    using Cons.prems(2) by (simp add: step IH)
qed

lemma sample_body_eq:
  assumes "length (diff w) = nd" and "i < length g"
  shows "fst (sample_body indices indptr P_data embedding reference_embedding dof nd flag i (g, w))
           = g[i := attract_row indices indptr P_data embedding reference_embedding dof nd i (g ! i)]
       \<and> length (diff (snd (sample_body indices indptr P_data embedding reference_embedding dof nd flag i (g, w)))) = nd
       \<and> sum_P (snd (sample_body indices indptr P_data embedding reference_embedding dof nd flag i (g, w)))
           = sum_P w + row_P indptr P_data flag i
       \<and> kl_divergence (snd (sample_body indices indptr P_data embedding reference_embedding dof nd flag i (g, w)))
           = kl_divergence w + row_kl indices indptr P_data embedding reference_embedding dof nd flag i"
  unfolding sample_body_def attract_row_def row_P_def row_kl_def
  using assms by (rule fold_neighbor_body)

lemma fold_sample_body:
  assumes "length (diff w) = nd" and "\<forall>i\<in>set rows. i < length g"
  shows "fst (fold (sample_body indices indptr P_data embedding reference_embedding dof nd flag) rows (g, w))
           = fold (\<lambda>i g. g[i := attract_row indices indptr P_data embedding reference_embedding dof nd i (g ! i)]) rows g
       \<and> length (diff (snd (fold (sample_body indices indptr P_data embedding reference_embedding dof nd flag) rows (g, w)))) = nd
       \<and> sum_P (snd (fold (sample_body indices indptr P_data embedding reference_embedding dof nd flag) rows (g, w)))
           = sum_P w + (\<Sum>i\<leftarrow>rows. row_P indptr P_data flag i)
       \<and> kl_divergence (snd (fold (sample_body indices indptr P_data embedding reference_embedding dof nd flag) rows (g, w)))
           = kl_divergence w
             + (\<Sum>i\<leftarrow>rows. row_kl indices indptr P_data embedding reference_embedding dof nd flag i)"
  using assms
proof (induction rows arbitrary: g w)
  case Nil
  then show ?case by simp
next
  case (Cons i rows)
  obtain g1 w1 where s: "sample_body indices indptr P_data embedding reference_embedding dof nd flag i (g, w) = (g1, w1)"
    by (cases "sample_body indices indptr P_data embedding reference_embedding dof nd flag i (g, w)")
  have i: "i < length g"
    using Cons.prems(2) by simp
  note one = sample_body_eq [OF Cons.prems(1) i, of indices indptr P_data embedding reference_embedding dof flag]
  have g1: "g1 = g[i := attract_row indices indptr P_data embedding reference_embedding dof nd i (g ! i)]"
    and w1: "length (diff w1) = nd" "sum_P w1 = sum_P w + row_P indptr P_data flag i"
      "kl_divergence w1 = kl_divergence w + row_kl indices indptr P_data embedding reference_embedding dof nd flag i"
    using one by (simp_all add: s)
  have "\<forall>j\<in>set rows. j < length g1"
    using Cons.prems(2) g1 by simp
  note IH = Cons.IH [OF w1(1) this]
  show ?case
    by (simp add: s IH w1 g1 [symmetric] algebra_simps)
qed


lemma fold_thread_body:
  assumes "\<forall>(block, rows)\<in>set bc. length block = nd \<and> (\<forall>i\<in>set rows. i < length g)"
  shows "fold (thread_body indices indptr P_data embedding reference_embedding dof nd flag) bc (g, tP, tkl)
     = (fold (\<lambda>i g. g[i := attract_row indices indptr P_data embedding reference_embedding dof nd i (g ! i)])
          (concat (map snd bc)) g,
        tP + (\<Sum>i\<leftarrow>concat (map snd bc). row_P indptr P_data flag i),
        tkl + (\<Sum>i\<leftarrow>concat (map snd bc).
                 row_kl indices indptr P_data embedding reference_embedding dof nd flag i))"
  using assms
proof (induction bc arbitrary: g tP tkl)
  case Nil
  then show ?case by simp
next
  case (Cons x bc)
  obtain block rows where x: "x = (block, rows)"
    by (cases x)
  let ?w0 = "\<lparr>diff = block, sum_P = 0, kl_divergence = 0\<rparr>"
  let ?r = "fold (sample_body indices indptr P_data embedding reference_embedding dof nd flag) rows (g, ?w0)"
  have b: "length (diff ?w0) = nd" and rows: "\<forall>i\<in>set rows. i < length g"
    using Cons.prems x by simp_all
  note one = fold_sample_body [OF b rows, of indices indptr P_data embedding reference_embedding dof flag]
  let ?g1 = "fold (\<lambda>i g. g[i := attract_row indices indptr P_data embedding reference_embedding dof nd i (g ! i)]) rows g"
  have r: "fst ?r = ?g1"
    "sum_P (snd ?r) = (\<Sum>i\<leftarrow>rows. row_P indptr P_data flag i)"
    "kl_divergence (snd ?r) = (\<Sum>i\<leftarrow>rows. row_kl indices indptr P_data embedding reference_embedding dof nd flag i)"
    using one by simp_all
  have len: "length ?g1 = length g"
  proof -
    have "length (fold (\<lambda>i g. g[i := h i g]) js g) = length g" for h :: "nat \<Rightarrow> real list list \<Rightarrow> real list" and js
      by (induction js arbitrary: g) simp_all
    then show ?thesis
      by simp
  qed
  have "thread_body indices indptr P_data embedding reference_embedding dof nd flag (block, rows) (g, tP, tkl)
      = (fst ?r, tP + sum_P (snd ?r), tkl + kl_divergence (snd ?r))"
    by (simp add: thread_body_def split: prod.splits)
  then have step: "thread_body indices indptr P_data embedding reference_embedding dof nd flag (block, rows) (g, tP, tkl)
      = (?g1, tP + (\<Sum>i\<leftarrow>rows. row_P indptr P_data flag i),
         tkl + (\<Sum>i\<leftarrow>rows. row_kl indices indptr P_data embedding reference_embedding dof nd flag i))"
    by (simp only: r)
  have "\<forall>(block, rows)\<in>set bc. length block = nd \<and> (\<forall>i\<in>set rows. i < length ?g1)"
    using Cons.prems by (simp only: len) simp
  note IH = Cons.IH [OF this]
  show ?case
    by (simp add: x step IH algebra_simps)
qed

lemma update_rows_commute:
  "(\<lambda>g. g[i := R i (g ! i)]) \<circ> (\<lambda>g. g[j := R j (g ! j)])
   = (\<lambda>g. g[j := R j (g ! j)]) \<circ> (\<lambda>g. g[i := R i (g ! i)])"
  by (cases "i = j") (auto simp: fun_eq_iff list_update_swap)

lemma fold_update_rows:
  assumes "mset js = mset [0..<length g]"
  shows "fold (\<lambda>i g. g[i := R i (g ! i)]) js g = map (\<lambda>i. R i (g ! i)) [0..<length g]"
proof -
  have "fold (\<lambda>i g. g[i := R i (g ! i)]) js = fold (\<lambda>i g. g[i := R i (g ! i)]) [0..<length g]"
    using assms by (intro fold_multiset_equiv update_rows_commute)
  moreover have "fold (\<lambda>i g. g[i := R i (g ! i)]) [0..<length g] g
      = map (\<lambda>i. R i (g ! i)) [0..<length g] @ drop (length g) g"
    by (rule fold_update_map) simp
  ultimately show ?thesis
    by simp
qed

lemma sum_list_permuted:
  fixes f :: "nat \<Rightarrow> real"
  assumes "mset js = mset ks"
  shows "(\<Sum>i\<leftarrow>js. f i) = (\<Sum>i\<leftarrow>ks. f i)"
proof -
  have "mset (map f js) = mset (map f ks)"
    using assms by simp
  then have "sum_mset (mset (map f js)) = sum_mset (mset (map f ks))"
    by (rule arg_cong)
  then show ?thesis
    by (simp only: sum_mset_sum_list)
qed

lemma compute_positive_gradients_eq:
  assumes "1 \<le> num_threads"
    and "valid_chunks (nat num_threads) (length gradient) (sched (nat num_threads) (length gradient))"
    and "allocates malloc (nat num_threads) (shape1 gradient)"
  shows "compute_positive_gradients sched malloc indices indptr P_data embedding reference_embedding
           gradient dof num_threads flag
     = Inr (((\<Sum>i\<leftarrow>[0..<length gradient]. row_P indptr P_data flag i),
             (\<Sum>i\<leftarrow>[0..<length gradient].
                 row_kl indices indptr P_data embedding reference_embedding dof (shape1 gradient) flag i)),
            map (\<lambda>i. attract_row indices indptr P_data embedding reference_embedding dof (shape1 gradient) i
                        (gradient ! i)) [0..<length gradient])"
proof -
  let ?t = "nat num_threads"
  let ?n = "length gradient"
  let ?nd = "shape1 gradient"
  let ?chunks = "sched ?t ?n"
  let ?blocks = "map (\<lambda>tid. malloc tid ?nd) [0..<?t]"
  have ct: "clamp_threads num_threads = num_threads"
    using assms(1) by (simp add: clamp_threads_def)
  have some: "None \<notin> set ?blocks"
    using assms(3) by (auto simp: allocates_def)
  have blen: "\<forall>block\<in>set (map the ?blocks). length block = ?nd"
    using assms(3) by (auto simp: allocates_def)
  have clen: "length ?chunks = ?t" and perm: "mset (concat ?chunks) = mset [0..<?n]"
    using assms(2) by (simp_all add: valid_chunks_def)
  have snd_zip: "map snd (zip (map the ?blocks) ?chunks) = ?chunks"
    using clen by simp
  have in_range: "\<forall>i\<in>set (concat ?chunks). i < ?n"
  proof
    fix i
    assume "i \<in> set (concat ?chunks)"
    then have "i \<in># mset (concat ?chunks)"
      by simp
    then have "i \<in># mset [0..<?n]"
      by (simp only: perm)
    then show "i < ?n"
      by simp
  qed
  have ok: "\<forall>(block, rows)\<in>set (zip (map the ?blocks) ?chunks).
      length block = ?nd \<and> (\<forall>i\<in>set rows. i < ?n)"
  proof (clarify, intro conjI ballI)
    fix block rows i
    assume z: "(block, rows) \<in> set (zip (map the ?blocks) ?chunks)"
    then have "block \<in> set (map the ?blocks)"
      by (rule set_zip_leftD)
    then show "length block = ?nd"
      using blen by blast
    assume "i \<in> set rows"
    moreover have "rows \<in> set ?chunks"
      using z by (rule set_zip_rightD)
    ultimately have "i \<in> set (concat ?chunks)"
      by auto
    then show "i < ?n"
      using in_range by blast
  qed
  have "fold (thread_body indices indptr P_data embedding reference_embedding dof ?nd flag)
          (zip (map the ?blocks) ?chunks) (gradient, 0, 0)
      = (fold (\<lambda>i g. g[i := attract_row indices indptr P_data embedding reference_embedding dof ?nd i (g ! i)])
           (concat ?chunks) gradient,
         0 + (\<Sum>i\<leftarrow>concat ?chunks. row_P indptr P_data flag i),
         0 + (\<Sum>i\<leftarrow>concat ?chunks.
                 row_kl indices indptr P_data embedding reference_embedding dof ?nd flag i))"
    using fold_thread_body [OF ok, of indices indptr P_data embedding reference_embedding dof flag 0 0]
    by (simp only: snd_zip)
  also have "fold (\<lambda>i g. g[i := attract_row indices indptr P_data embedding reference_embedding dof ?nd i (g ! i)])
           (concat ?chunks) gradient
       = map (\<lambda>i. attract_row indices indptr P_data embedding reference_embedding dof ?nd i (gradient ! i)) [0..<?n]"
    using perm by (rule fold_update_rows)
  also have "(\<Sum>i\<leftarrow>concat ?chunks. row_P indptr P_data flag i) = (\<Sum>i\<leftarrow>[0..<?n]. row_P indptr P_data flag i)"
    using perm by (rule sum_list_permuted)
  also have "(\<Sum>i\<leftarrow>concat ?chunks. row_kl indices indptr P_data embedding reference_embedding dof ?nd flag i)
      = (\<Sum>i\<leftarrow>[0..<?n]. row_kl indices indptr P_data embedding reference_embedding dof ?nd flag i)"
    using perm by (rule sum_list_permuted)
  finally show ?thesis
    using some by (simp add: compute_positive_gradients_def Let_def ct)
qed


text \<open>
  C8.  For every input, the tuple \<open>(sum_P, kl_divergence)\<close> returned by
  \<^verbatim>\<open>compute_positive_gradients\<close> and the final content of the gradient array are the same
  for any two thread counts that are at least one, however the runtime distributes the
  samples over the threads and whatever the scratch vectors hold when they are
  allocated, as long as every allocation succeeds; the call then returns.  The
  arithmetic is exact.
\<close>

theorem positive_gradients_thread_independent:
  assumes "1 \<le> a" and "1 \<le> b"
    and "valid_chunks (nat a) (length gradient) (sched_a (nat a) (length gradient))"
    and "valid_chunks (nat b) (length gradient) (sched_b (nat b) (length gradient))"
    and "allocates malloc_a (nat a) (shape1 gradient)"
    and "allocates malloc_b (nat b) (shape1 gradient)"
  shows "compute_positive_gradients sched_a malloc_a indices indptr P_data embedding reference_embedding
           gradient dof a should_eval_error
         = compute_positive_gradients sched_b malloc_b indices indptr P_data embedding reference_embedding
           gradient dof b should_eval_error
       \<and> (\<exists>total_P total_kl result. compute_positive_gradients sched_a malloc_a indices indptr P_data embedding
              reference_embedding gradient dof a should_eval_error = Inr ((total_P, total_kl), result))"
  using assms by (simp add: compute_positive_gradients_eq)

lemma two_samples_attract:
  "compute_positive_gradients serial (\<lambda>tid n. Some (replicate n 0)) [1, 0] [0, 1, 2] [1 / 2, 1 / 2]
       [ [0], [1] ] [ [0], [1] ] [ [0], [0] ] 1 1 True
   = Inr ((1, ln (1 / (1 + 2 * EPSILON))), [ [- 1 / 4], [1 / 4] ])"
proof -
  let ?g = "[ [0], [0 :: real] ]"
  have 1: "valid_chunks (nat 1) (length ?g) (serial (nat 1) (length ?g))"
    by (simp add: valid_chunks_def serial_def)
  have 3: "allocates (\<lambda>tid n. Some (replicate n 0)) (nat 1) (shape1 ?g)"
    by (simp add: allocates_def)
  have up: "[0..<length ?g] = [0, 1]" "[0..<shape1 ?g] = [0]"
    by (simp_all add: upt_rec shape1_def)
  have q: "(1 / 2) / (1 / 2 + EPSILON) = 1 / (1 + 2 * EPSILON)"
    by (simp add: field_simps)
  have "compute_positive_gradients serial (\<lambda>tid n. Some (replicate n 0)) [1, 0] [0, 1, 2] [1 / 2, 1 / 2]
       [ [0], [1] ] [ [0], [1] ] ?g 1 1 True
     = Inr (((\<Sum>i\<leftarrow>[0..<length ?g]. row_P [0, 1, 2] [1 / 2, 1 / 2] True i),
             (\<Sum>i\<leftarrow>[0..<length ?g].
                 row_kl [1, 0] [0, 1, 2] [1 / 2, 1 / 2] [ [0], [1] ] [ [0], [1] ] 1 (shape1 ?g) True i)),
            map (\<lambda>i. attract_row [1, 0] [0, 1, 2] [1 / 2, 1 / 2] [ [0], [1] ] [ [0], [1] ] 1 (shape1 ?g) i
                        (?g ! i)) [0..<length ?g])"
    using 1 3 by (intro compute_positive_gradients_eq) simp_all
  then show ?thesis
    by (simp only: up)
      (simp add: row_P_def row_kl_def attract_row_def attract_entry_def entry_q_def student_t_def
        shape1_def upt_rec q)
qed

theorem positive_gradients_thread_independent_witness:
  "compute_positive_gradients serial (\<lambda>tid n. Some (replicate n 0)) [1, 0] [0, 1, 2] [1 / 2, 1 / 2]
       [ [0], [1] ] [ [0], [1] ] [ [0], [0] ] 1 1 True
   = compute_positive_gradients (\<lambda>t n. replicate (t - 1) [] @ [rev [0..<n]]) (\<lambda>tid n. Some (replicate n 7))
       [1, 0] [0, 1, 2] [1 / 2, 1 / 2] [ [0], [1] ] [ [0], [1] ] [ [0], [0] ] 1 2 True
   \<and> compute_positive_gradients (\<lambda>t n. replicate (t - 1) [] @ [rev [0..<n]]) (\<lambda>tid n. Some (replicate n 7))
       [1, 0] [0, 1, 2] [1 / 2, 1 / 2] [ [0], [1] ] [ [0], [1] ] [ [0], [0] ] 1 2 True
     = Inr ((1, ln (1 / (1 + 2 * EPSILON))), [ [- 1 / 4], [1 / 4] ])"
proof -
  let ?g = "[ [0], [0 :: real] ]"
  have 1: "valid_chunks (nat 1) (length ?g) (serial (nat 1) (length ?g))"
    by (simp add: valid_chunks_def serial_def)
  have 2: "valid_chunks (nat 2) (length ?g)
      ((\<lambda>t n. replicate (t - 1) [] @ [rev [0..<n]]) (nat 2) (length ?g))"
    by (simp add: valid_chunks_def)
  have 3: "allocates (\<lambda>tid n. Some (replicate n 0)) (nat 1) (shape1 ?g)"
    by (simp add: allocates_def)
  have 4: "allocates (\<lambda>tid n. Some (replicate n 7)) (nat 2) (shape1 ?g)"
    by (simp add: allocates_def)
  have "compute_positive_gradients serial (\<lambda>tid n. Some (replicate n 0)) [1, 0] [0, 1, 2] [1 / 2, 1 / 2]
       [ [0], [1] ] [ [0], [1] ] ?g 1 1 True
   = compute_positive_gradients (\<lambda>t n. replicate (t - 1) [] @ [rev [0..<n]]) (\<lambda>tid n. Some (replicate n 7))
       [1, 0] [0, 1, 2] [1 / 2, 1 / 2] [ [0], [1] ] [ [0], [1] ] ?g 1 2 True"
    using 1 2 3 4 positive_gradients_thread_independent [where a = 1 and b = 2
        and sched_a = serial and sched_b = "\<lambda>t n. replicate (t - 1) [] @ [rev [0..<n]]"
        and malloc_a = "\<lambda>tid n. Some (replicate n 0)" and malloc_b = "\<lambda>tid n. Some (replicate n 7)"
        and gradient = ?g and indices = "[1, 0]" and indptr = "[0, 1, 2]" and P_data = "[1 / 2, 1 / 2]"
        and embedding = "[ [0], [1] ]" and reference_embedding = "[ [0], [1] ]" and dof = 1
        and should_eval_error = True]
    by simp
  then show ?thesis
    using two_samples_attract by simp
qed

text \<open>
  C9.  A thread count below one is replaced by one at the head of
  \<^verbatim>\<open>compute_gaussian_perplexity\<close>, \<^verbatim>\<open>compute_positive_gradients\<close> and
  \<^verbatim>\<open>compute_negative_gradients_bh\<close>: each call behaves as the same call with
  \<open>num_threads = 1\<close>.
\<close>

theorem nonpositive_thread_count_is_one:
  assumes "num_threads < 1"
  shows "compute_gaussian_perplexity sched unset distances desired_perplexity perplexity_tol max_iter num_threads
         = compute_gaussian_perplexity sched unset distances desired_perplexity perplexity_tol max_iter 1
       \<and> compute_positive_gradients sched malloc indices indptr P_data embedding reference_embedding
           gradient dof num_threads should_eval_error
         = compute_positive_gradients sched malloc indices indptr P_data embedding reference_embedding
           gradient dof 1 should_eval_error
       \<and> compute_negative_gradients_bh sched is_duplicate tree_root embedding_bh gradient_bh theta dof_bh num_threads
         = compute_negative_gradients_bh sched is_duplicate tree_root embedding_bh gradient_bh theta dof_bh 1"
proof -
  have "clamp_threads num_threads = clamp_threads 1"
    using assms by (simp add: clamp_threads_def)
  then show ?thesis
    by (simp add: compute_gaussian_perplexity_def compute_positive_gradients_def
        compute_negative_gradients_bh_def)
qed

theorem nonpositive_thread_count_is_one_witness:
  "(- 3 :: int) < 1
   \<and> compute_gaussian_perplexity serial 0 [ [1] ] 30 (1 / 10 ^ 8) 200 (- 3)
       = compute_gaussian_perplexity serial 0 [ [1] ] 30 (1 / 10 ^ 8) 200 1
   \<and> compute_positive_gradients serial (\<lambda>tid n. Some (replicate n 0)) [1, 0] [0, 1, 2] [1 / 2, 1 / 2]
       [ [0], [1] ] [ [0], [1] ] [ [0], [0] ] 1 (- 3) True
       = compute_positive_gradients serial (\<lambda>tid n. Some (replicate n 0)) [1, 0] [0, 1, 2] [1 / 2, 1 / 2]
       [ [0], [1] ] [ [0], [1] ] [ [0], [0] ] 1 1 True
   \<and> compute_negative_gradients_bh serial same_place
       (Node 1 2 False 1 [1] [Node 1 1 True (1 / 2) [3 / 4] [], Node 1 1 True (1 / 2) [5 / 4] []])
       [ [3 / 4], [5 / 4] ] [ [0], [0] ] (1 / 2) 1 (- 3)
       = compute_negative_gradients_bh serial same_place
       (Node 1 2 False 1 [1] [Node 1 1 True (1 / 2) [3 / 4] [], Node 1 1 True (1 / 2) [5 / 4] []])
       [ [3 / 4], [5 / 4] ] [ [0], [0] ] (1 / 2) 1 1"
proof -
  have neg: "(- 3 :: int) < 1"
    by simp
  show ?thesis
    using neg nonpositive_thread_count_is_one [OF neg, of serial 0 "[ [1] ]" 30 "1 / 10 ^ 8" 200
        "\<lambda>tid n. Some (replicate n 0)" "[1, 0]" "[0, 1, 2]" "[1 / 2, 1 / 2]" "[ [0], [1] ]" "[ [0], [1] ]"
        "[ [0], [0] ]" 1 True same_place
        "Node 1 2 False 1 [1] [Node 1 1 True (1 / 2) [3 / 4] [], Node 1 1 True (1 / 2) [5 / 4] []]"
        "[ [3 / 4], [5 / 4] ]" "[ [0], [0] ]" "1 / 2" 1]
    by (simp del: estimate_negative_gradient.simps)
qed

end
